theory Spec2Isabelle
  imports Complex_Main "HOL-Library.Product_Lexorder" "HOL-Library.Char_ord"
    "HOL-Library.List_Lexorder"
begin

section \<open>Python strings\<close>

text \<open>
  A Python \<open>str\<close> is modelled as a list of 8-bit characters: text whose code points
  lie below 256 (Latin-1). The helpers below follow \<open>str.lower\<close>, \<open>str.strip\<close>, the
  substring test \<open>sub in s\<close>, \<open>str.replace\<close> and \<open>repr\<close> on such text. \<open>str.lower\<close>
  maps the letters A to Z and the capitals U+00C0 to U+00DE, the sign U+00D7 apart, to the
  character 32 places on. \<open>str.strip\<close> removes the characters that \<open>str.isspace\<close>
  accepts: the blank, U+0009 to U+000D, U+001C to U+001F, U+0085 and U+00A0.
\<close>

definition lower_char :: "char \<Rightarrow> char" where
  "lower_char c =
     (case map_of
             (zip (''ABCDEFGHIJKLMNOPQRSTUVWXYZ'' @
              [CHR 0xC0, CHR 0xC1, CHR 0xC2, CHR 0xC3, CHR 0xC4, CHR 0xC5, CHR 0xC6, CHR 0xC7,
               CHR 0xC8, CHR 0xC9, CHR 0xCA, CHR 0xCB, CHR 0xCC, CHR 0xCD, CHR 0xCE, CHR 0xCF,
               CHR 0xD0, CHR 0xD1, CHR 0xD2, CHR 0xD3, CHR 0xD4, CHR 0xD5, CHR 0xD6, CHR 0xD8,
               CHR 0xD9, CHR 0xDA, CHR 0xDB, CHR 0xDC, CHR 0xDD, CHR 0xDE])
                  (''abcdefghijklmnopqrstuvwxyz'' @
              [CHR 0xE0, CHR 0xE1, CHR 0xE2, CHR 0xE3, CHR 0xE4, CHR 0xE5, CHR 0xE6, CHR 0xE7,
               CHR 0xE8, CHR 0xE9, CHR 0xEA, CHR 0xEB, CHR 0xEC, CHR 0xED, CHR 0xEE, CHR 0xEF,
               CHR 0xF0, CHR 0xF1, CHR 0xF2, CHR 0xF3, CHR 0xF4, CHR 0xF5, CHR 0xF6, CHR 0xF8,
               CHR 0xF9, CHR 0xFA, CHR 0xFB, CHR 0xFC, CHR 0xFD, CHR 0xFE])) c of
        Some d \<Rightarrow> d
      | None \<Rightarrow> c)"

definition lower :: "string \<Rightarrow> string" where
  "lower s = map lower_char s"

definition isspace :: "char \<Rightarrow> bool" where
  "isspace c = (c \<in> set [CHR '' '', CHR 0x09, CHR 0x0A, CHR 0x0B, CHR 0x0C, CHR 0x0D,
                          CHR 0x1C, CHR 0x1D, CHR 0x1E, CHR 0x1F, CHR 0x85, CHR 0xA0])"

definition strip :: "string \<Rightarrow> string" where
  "strip s = rev (dropWhile isspace (rev (dropWhile isspace s)))"

fun startswith :: "string \<Rightarrow> string \<Rightarrow> bool" where
  "startswith s [] = True"
| "startswith [] (p # ps) = False"
| "startswith (c # cs) (p # ps) = (c = p \<and> startswith cs ps)"

text \<open>\<open>str_in sub s\<close> is Python's \<open>sub in s\<close> on strings.\<close>

fun str_in :: "string \<Rightarrow> string \<Rightarrow> bool" where
  "str_in sub [] = (sub = [])"
| "str_in sub (c # cs) = (startswith (c # cs) sub \<or> str_in sub cs)"

text \<open>\<open>any_in kws s\<close> is \<open>any(kw in s for kw in kws)\<close>.\<close>

definition any_in :: "string list \<Rightarrow> string \<Rightarrow> bool" where
  "any_in kws s = list_ex (\<lambda>kw. str_in kw s) kws"

text \<open>
  \<open>str.replace(old, new)\<close>: every non-overlapping occurrence, left to right. Every call
  in the program passes a non-empty \<open>old\<close>; for an empty one the text is returned as it is.
\<close>

function replace :: "string \<Rightarrow> string \<Rightarrow> string \<Rightarrow> string" where
  "replace old new [] = []"
| "replace old new (c # cs) =
     (if old \<noteq> [] \<and> startswith (c # cs) old
      then new @ replace old new (drop (length old) (c # cs))
      else c # replace old new cs)"
  by pat_completeness auto
termination
  by (relation "measure (\<lambda>(old, new, s). length s)") auto

text \<open>
  \<open>repr\<close> of a string and \<open>str\<close> of a set of strings. \<open>repr\<close> quotes with \<open>'\<close> unless
  the text has a \<open>'\<close> and no \<open>"\<close>, and escapes the backslash, the quote in use and the
  characters that are not printable (U+0000 to U+001F, U+007F to U+00A0 and U+00AD). Python lists the elements of a set in an order of its own; the model
  lists them in insertion order.
\<close>

definition repr_escapes :: "(char \<times> string) list" where
  "repr_escapes =
     [(CHR 0x5C, [CHR 0x5C, CHR 0x5C]),
      (CHR 0x09, [CHR 0x5C, CHR ''t'']),
      (CHR 0x0A, [CHR 0x5C, CHR ''n'']),
      (CHR 0x0D, [CHR 0x5C, CHR ''r'']),
      (CHR 0x00, [CHR 0x5C, CHR ''x'', CHR ''0'', CHR ''0'']),
      (CHR 0x01, [CHR 0x5C, CHR ''x'', CHR ''0'', CHR ''1'']),
      (CHR 0x02, [CHR 0x5C, CHR ''x'', CHR ''0'', CHR ''2'']),
      (CHR 0x03, [CHR 0x5C, CHR ''x'', CHR ''0'', CHR ''3'']),
      (CHR 0x04, [CHR 0x5C, CHR ''x'', CHR ''0'', CHR ''4'']),
      (CHR 0x05, [CHR 0x5C, CHR ''x'', CHR ''0'', CHR ''5'']),
      (CHR 0x06, [CHR 0x5C, CHR ''x'', CHR ''0'', CHR ''6'']),
      (CHR 0x07, [CHR 0x5C, CHR ''x'', CHR ''0'', CHR ''7'']),
      (CHR 0x08, [CHR 0x5C, CHR ''x'', CHR ''0'', CHR ''8'']),
      (CHR 0x0B, [CHR 0x5C, CHR ''x'', CHR ''0'', CHR ''b'']),
      (CHR 0x0C, [CHR 0x5C, CHR ''x'', CHR ''0'', CHR ''c'']),
      (CHR 0x0E, [CHR 0x5C, CHR ''x'', CHR ''0'', CHR ''e'']),
      (CHR 0x0F, [CHR 0x5C, CHR ''x'', CHR ''0'', CHR ''f'']),
      (CHR 0x10, [CHR 0x5C, CHR ''x'', CHR ''1'', CHR ''0'']),
      (CHR 0x11, [CHR 0x5C, CHR ''x'', CHR ''1'', CHR ''1'']),
      (CHR 0x12, [CHR 0x5C, CHR ''x'', CHR ''1'', CHR ''2'']),
      (CHR 0x13, [CHR 0x5C, CHR ''x'', CHR ''1'', CHR ''3'']),
      (CHR 0x14, [CHR 0x5C, CHR ''x'', CHR ''1'', CHR ''4'']),
      (CHR 0x15, [CHR 0x5C, CHR ''x'', CHR ''1'', CHR ''5'']),
      (CHR 0x16, [CHR 0x5C, CHR ''x'', CHR ''1'', CHR ''6'']),
      (CHR 0x17, [CHR 0x5C, CHR ''x'', CHR ''1'', CHR ''7'']),
      (CHR 0x18, [CHR 0x5C, CHR ''x'', CHR ''1'', CHR ''8'']),
      (CHR 0x19, [CHR 0x5C, CHR ''x'', CHR ''1'', CHR ''9'']),
      (CHR 0x1A, [CHR 0x5C, CHR ''x'', CHR ''1'', CHR ''a'']),
      (CHR 0x1B, [CHR 0x5C, CHR ''x'', CHR ''1'', CHR ''b'']),
      (CHR 0x1C, [CHR 0x5C, CHR ''x'', CHR ''1'', CHR ''c'']),
      (CHR 0x1D, [CHR 0x5C, CHR ''x'', CHR ''1'', CHR ''d'']),
      (CHR 0x1E, [CHR 0x5C, CHR ''x'', CHR ''1'', CHR ''e'']),
      (CHR 0x1F, [CHR 0x5C, CHR ''x'', CHR ''1'', CHR ''f'']),
      (CHR 0x7F, [CHR 0x5C, CHR ''x'', CHR ''7'', CHR ''f'']),
      (CHR 0x80, [CHR 0x5C, CHR ''x'', CHR ''8'', CHR ''0'']),
      (CHR 0x81, [CHR 0x5C, CHR ''x'', CHR ''8'', CHR ''1'']),
      (CHR 0x82, [CHR 0x5C, CHR ''x'', CHR ''8'', CHR ''2'']),
      (CHR 0x83, [CHR 0x5C, CHR ''x'', CHR ''8'', CHR ''3'']),
      (CHR 0x84, [CHR 0x5C, CHR ''x'', CHR ''8'', CHR ''4'']),
      (CHR 0x85, [CHR 0x5C, CHR ''x'', CHR ''8'', CHR ''5'']),
      (CHR 0x86, [CHR 0x5C, CHR ''x'', CHR ''8'', CHR ''6'']),
      (CHR 0x87, [CHR 0x5C, CHR ''x'', CHR ''8'', CHR ''7'']),
      (CHR 0x88, [CHR 0x5C, CHR ''x'', CHR ''8'', CHR ''8'']),
      (CHR 0x89, [CHR 0x5C, CHR ''x'', CHR ''8'', CHR ''9'']),
      (CHR 0x8A, [CHR 0x5C, CHR ''x'', CHR ''8'', CHR ''a'']),
      (CHR 0x8B, [CHR 0x5C, CHR ''x'', CHR ''8'', CHR ''b'']),
      (CHR 0x8C, [CHR 0x5C, CHR ''x'', CHR ''8'', CHR ''c'']),
      (CHR 0x8D, [CHR 0x5C, CHR ''x'', CHR ''8'', CHR ''d'']),
      (CHR 0x8E, [CHR 0x5C, CHR ''x'', CHR ''8'', CHR ''e'']),
      (CHR 0x8F, [CHR 0x5C, CHR ''x'', CHR ''8'', CHR ''f'']),
      (CHR 0x90, [CHR 0x5C, CHR ''x'', CHR ''9'', CHR ''0'']),
      (CHR 0x91, [CHR 0x5C, CHR ''x'', CHR ''9'', CHR ''1'']),
      (CHR 0x92, [CHR 0x5C, CHR ''x'', CHR ''9'', CHR ''2'']),
      (CHR 0x93, [CHR 0x5C, CHR ''x'', CHR ''9'', CHR ''3'']),
      (CHR 0x94, [CHR 0x5C, CHR ''x'', CHR ''9'', CHR ''4'']),
      (CHR 0x95, [CHR 0x5C, CHR ''x'', CHR ''9'', CHR ''5'']),
      (CHR 0x96, [CHR 0x5C, CHR ''x'', CHR ''9'', CHR ''6'']),
      (CHR 0x97, [CHR 0x5C, CHR ''x'', CHR ''9'', CHR ''7'']),
      (CHR 0x98, [CHR 0x5C, CHR ''x'', CHR ''9'', CHR ''8'']),
      (CHR 0x99, [CHR 0x5C, CHR ''x'', CHR ''9'', CHR ''9'']),
      (CHR 0x9A, [CHR 0x5C, CHR ''x'', CHR ''9'', CHR ''a'']),
      (CHR 0x9B, [CHR 0x5C, CHR ''x'', CHR ''9'', CHR ''b'']),
      (CHR 0x9C, [CHR 0x5C, CHR ''x'', CHR ''9'', CHR ''c'']),
      (CHR 0x9D, [CHR 0x5C, CHR ''x'', CHR ''9'', CHR ''d'']),
      (CHR 0x9E, [CHR 0x5C, CHR ''x'', CHR ''9'', CHR ''e'']),
      (CHR 0x9F, [CHR 0x5C, CHR ''x'', CHR ''9'', CHR ''f'']),
      (CHR 0xA0, [CHR 0x5C, CHR ''x'', CHR ''a'', CHR ''0'']),
      (CHR 0xAD, [CHR 0x5C, CHR ''x'', CHR ''a'', CHR ''d''])]"

definition repr_char :: "char \<Rightarrow> char \<Rightarrow> string" where
  "repr_char q c =
     (if c = q then [CHR 0x5C, q]
      else case map_of repr_escapes c of Some e \<Rightarrow> e | None \<Rightarrow> [c])"

definition repr :: "string \<Rightarrow> string" where
  "repr s =
     (let q = (if CHR 0x27 \<in> set s \<and> CHR 0x22 \<notin> set s then CHR 0x22 else CHR 0x27)
      in [q] @ concat (map (repr_char q) s) @ [q])"

fun join :: "string \<Rightarrow> string list \<Rightarrow> string" where
  "join sep [] = []"
| "join sep [x] = x"
| "join sep (x # y # ys) = x @ sep @ join sep (y # ys)"

definition str_of_set :: "string list \<Rightarrow> string" where
  "str_of_set ts = (if ts = [] then ''set()'' else ''{'' @ join '', '' (map repr ts) @ ''}'')"

section \<open>The similarity ratio of difflib\<close>

text \<open>
  \<open>difflib.SequenceMatcher(None, a, b).ratio()\<close> of the Python standard library, as the
  fuzzy tier calls it: no junk predicate, \<open>autojunk\<close> in force. \<open>b2j\<close> maps a character to
  the positions it has in \<open>b\<close>, without the characters that are popular in a \<open>b\<close> of 200
  characters or more. \<open>find_longest_match\<close> runs its double loop over the rows of \<open>a\<close>
  and then extends the block found to the left and to the right; with no junk predicate the
  set of junk characters is empty, so the two loops that extend over junk never iterate.
  \<open>get_matching_blocks\<close> works through a queue of regions, sorts the blocks, merges
  adjacent ones and appends the sentinel. The ratio \<open>2.0 * matches / length\<close> is kept as
  an exact rational number: the float quotient is the correctly rounded value of it, and
  for texts of any length a request can carry, two different quotients (or a quotient and
  the threshold 0.8) never round to the same float, so every comparison of scores comes
  out as in the code.
\<close>

definition popular :: "string \<Rightarrow> char \<Rightarrow> bool" where
  "popular b c = (length b \<ge> 200 \<and> count_list b c > length b div 100 + 1)"

definition b2j :: "string \<Rightarrow> char \<Rightarrow> nat list" where
  "b2j b c = (if popular b c then [] else filter (\<lambda>j. b ! j = c) [0..<length b])"

type_synonym match = "nat \<times> nat \<times> nat"

definition j2len_get :: "(nat \<rightharpoonup> nat) \<Rightarrow> nat \<Rightarrow> nat" where
  "j2len_get j2len j = (if j = 0 then 0 else case j2len (j - 1) of None \<Rightarrow> 0 | Some k \<Rightarrow> k)"

fun flm_inner :: "nat \<Rightarrow> nat \<Rightarrow> nat \<Rightarrow> (nat \<rightharpoonup> nat) \<Rightarrow> nat list \<Rightarrow>
    (nat \<rightharpoonup> nat) \<times> match \<Rightarrow> (nat \<rightharpoonup> nat) \<times> match" where
  "flm_inner i blo bhi j2len [] st = st"
| "flm_inner i blo bhi j2len (j # js) (newj2len, besti, bestj, bestsize) =
     (if j < blo then flm_inner i blo bhi j2len js (newj2len, besti, bestj, bestsize)
      else if j \<ge> bhi then (newj2len, besti, bestj, bestsize)
      else let k = j2len_get j2len j + 1;
               new' = newj2len(j \<mapsto> k)
           in if k > bestsize
              then flm_inner i blo bhi j2len js (new', i + 1 - k, j + 1 - k, k)
              else flm_inner i blo bhi j2len js (new', besti, bestj, bestsize))"

fun flm_outer :: "string \<Rightarrow> string \<Rightarrow> nat \<Rightarrow> nat \<Rightarrow> nat list \<Rightarrow>
    (nat \<rightharpoonup> nat) \<times> match \<Rightarrow> (nat \<rightharpoonup> nat) \<times> match" where
  "flm_outer a b blo bhi [] st = st"
| "flm_outer a b blo bhi (i # is) (j2len, bst) =
     flm_outer a b blo bhi is (flm_inner i blo bhi j2len (b2j b (a ! i)) (Map.empty, bst))"

function extend_left :: "string \<Rightarrow> string \<Rightarrow> nat \<Rightarrow> nat \<Rightarrow> match \<Rightarrow> match" where
  "extend_left a b alo blo (besti, bestj, bestsize) =
     (if besti > alo \<and> bestj > blo \<and> a ! (besti - 1) = b ! (bestj - 1)
      then extend_left a b alo blo (besti - 1, bestj - 1, bestsize + 1)
      else (besti, bestj, bestsize))"
  by pat_completeness auto
termination
  by (relation "measure (\<lambda>(a, b, alo, blo, besti, bestj, bestsize). besti)") auto

function extend_right :: "string \<Rightarrow> string \<Rightarrow> nat \<Rightarrow> nat \<Rightarrow> match \<Rightarrow> match" where
  "extend_right a b ahi bhi (besti, bestj, bestsize) =
     (if besti + bestsize < ahi \<and> bestj + bestsize < bhi \<and>
         a ! (besti + bestsize) = b ! (bestj + bestsize)
      then extend_right a b ahi bhi (besti, bestj, bestsize + 1)
      else (besti, bestj, bestsize))"
  by pat_completeness auto
termination
  by (relation "measure (\<lambda>(a, b, ahi, bhi, besti, bestj, bestsize). ahi - (besti + bestsize))") auto

declare extend_left.simps [simp del] extend_right.simps [simp del]

definition find_longest_match :: "string \<Rightarrow> string \<Rightarrow> nat \<Rightarrow> nat \<Rightarrow> nat \<Rightarrow> nat \<Rightarrow> match" where
  "find_longest_match a b alo ahi blo bhi =
     extend_right a b ahi bhi
       (extend_left a b alo blo
          (snd (flm_outer a b blo bhi [alo..<ahi] (Map.empty, alo, blo, 0))))"



definition row_ok :: "nat \<Rightarrow> nat \<Rightarrow> nat \<Rightarrow> (nat \<rightharpoonup> nat) \<Rightarrow> bool" where
  "row_ok alo blo i m = (\<forall>j v. m j = Some v \<longrightarrow> v + alo \<le> i \<and> blo \<le> j \<and> v \<le> j + 1 - blo)"

definition best_ok :: "nat \<Rightarrow> nat \<Rightarrow> nat \<Rightarrow> nat \<Rightarrow> match \<Rightarrow> bool" where
  "best_ok alo blo i bhi bst = (case bst of (bi, bj, bs) \<Rightarrow>
     alo \<le> bi \<and> blo \<le> bj \<and>
     ((bs = 0 \<and> bi = alo \<and> bj = blo) \<or> (bi + bs \<le> i \<and> bj + bs \<le> bhi)))"

definition match_ok :: "nat \<Rightarrow> nat \<Rightarrow> nat \<Rightarrow> nat \<Rightarrow> match \<Rightarrow> bool" where
  "match_ok alo ahi blo bhi bst = (case bst of (bi, bj, bs) \<Rightarrow>
     alo \<le> bi \<and> blo \<le> bj \<and> (bs = 0 \<or> (bi + bs \<le> ahi \<and> bj + bs \<le> bhi)))"

lemma j2len_get_bound:
  assumes "row_ok alo blo i m"
  shows "j2len_get m j + alo \<le> max i alo" and "j2len_get m j \<le> j - blo"
proof -
  show "j2len_get m j + alo \<le> max i alo"
  proof (cases "j = 0")
    case True then show ?thesis by (simp add: j2len_get_def)
  next
    case False
    show ?thesis
    proof (cases "m (j - 1)")
      case None then show ?thesis using False by (simp add: j2len_get_def)
    next
      case (Some v)
      with assms have "v + alo \<le> i" unfolding row_ok_def by blast
      then show ?thesis using False Some by (simp add: j2len_get_def)
    qed
  qed
  show "j2len_get m j \<le> j - blo"
  proof (cases "j = 0")
    case True then show ?thesis by (simp add: j2len_get_def)
  next
    case False
    show ?thesis
    proof (cases "m (j - 1)")
      case None then show ?thesis using False by (simp add: j2len_get_def)
    next
      case (Some v)
      with assms have "blo \<le> j - 1 \<and> v \<le> (j - 1) + 1 - blo" unfolding row_ok_def by blast
      then show ?thesis using False Some by (simp add: j2len_get_def)
    qed
  qed
qed

lemma flm_inner_step:
  "\<not> j < blo \<Longrightarrow> \<not> bhi \<le> j \<Longrightarrow>
   flm_inner i blo bhi j2len (j # js) (new, bi, bj, bs) =
     flm_inner i blo bhi j2len js
       (new(j \<mapsto> j2len_get j2len j + 1),
        if j2len_get j2len j + 1 > bs
        then (i + 1 - (j2len_get j2len j + 1), j + 1 - (j2len_get j2len j + 1), j2len_get j2len j + 1)
        else (bi, bj, bs))"
  by (simp add: Let_def del: fun_upd_apply)

lemma flm_inner_ok:
  assumes "row_ok alo blo i j2len" and "alo \<le> i"
    and "row_ok alo blo (i + 1) new" and "best_ok alo blo (i + 1) bhi bst"
  shows "row_ok alo blo (i + 1) (fst (flm_inner i blo bhi j2len js (new, bst))) \<and>
         best_ok alo blo (i + 1) bhi (snd (flm_inner i blo bhi j2len js (new, bst)))"
  using assms(3,4)
proof (induction js arbitrary: new bst)
  case Nil
  then show ?case by simp
next
  case (Cons j js)
  obtain bi bj bs where bst: "bst = (bi, bj, bs)" by (cases bst) auto
  show ?case
  proof (cases "j < blo")
    case True
    then show ?thesis using Cons bst by simp
  next
    case nlt: False
    show ?thesis
    proof (cases "j \<ge> bhi")
      case True
      then show ?thesis using Cons.prems nlt bst by simp
    next
      case False
      define k where "k = j2len_get j2len j + 1"
      have k1: "k + alo \<le> i + 1"
        using j2len_get_bound(1)[OF assms(1), of j] assms(2) by (simp add: k_def max_def)
      have k2: "k \<le> j + 1 - blo"
        using j2len_get_bound(2)[OF assms(1), of j] nlt by (simp add: k_def)
      have new': "row_ok alo blo (i + 1) (new(j \<mapsto> k))"
        using Cons.prems(1) k1 k2 nlt unfolding row_ok_def by auto
      have b1: "best_ok alo blo (i + 1) bhi (i + 1 - k, j + 1 - k, k)"
        using k1 k2 nlt False unfolding best_ok_def by auto
      have b2: "best_ok alo blo (i + 1) bhi
                  (if k > bs then (i + 1 - k, j + 1 - k, k) else (bi, bj, bs))"
        using b1 Cons.prems(2) bst by simp
      show ?thesis
        unfolding bst flm_inner_step[OF nlt False] k_def[symmetric]
        by (rule Cons.IH[OF new' b2])
    qed
  qed
qed

lemma row_ok_empty: "row_ok alo blo i Map.empty"
  by (simp add: row_ok_def)

lemma best_ok_mono: "best_ok alo blo i bhi bst \<Longrightarrow> i \<le> i' \<Longrightarrow> best_ok alo blo i' bhi bst"
  by (auto simp: best_ok_def split: prod.splits)

lemma flm_outer_ok:
  assumes "alo \<le> m" and "row_ok alo blo m j2len" and "best_ok alo blo m bhi bst"
  shows "best_ok alo blo (max m ahi) bhi (snd (flm_outer a b blo bhi [m..<ahi] (j2len, bst)))"
  using assms
proof (induction "ahi - m" arbitrary: m j2len bst)
  case 0
  then show ?case by (simp add: max_def)
next
  case (Suc n)
  then have lt: "m < ahi" by simp
  have upt: "[m..<ahi] = m # [Suc m..<ahi]" using lt by (simp add: upt_rec)
  let ?st = "flm_inner m blo bhi j2len (b2j b (a ! m)) (Map.empty, bst)"
  have ok: "row_ok alo blo (m + 1) (fst ?st) \<and> best_ok alo blo (m + 1) bhi (snd ?st)"
    by (rule flm_inner_ok[OF Suc.prems(2) Suc.prems(1) row_ok_empty best_ok_mono[OF Suc.prems(3)]]) simp
  have n: "n = ahi - Suc m" using Suc.hyps(2) by simp
  have "best_ok alo blo (max (Suc m) ahi) bhi
          (snd (flm_outer a b blo bhi [Suc m..<ahi] (fst ?st, snd ?st)))"
    using Suc.hyps(1)[OF n, of "fst ?st" "snd ?st"] Suc.prems(1) ok by simp
  then show ?case using upt lt by (simp add: max_def)
qed

lemma extend_left_ok:
  "best_ok alo blo ahi bhi bst \<Longrightarrow> best_ok alo blo ahi bhi (extend_left a b alo blo bst)"
proof (induction a b alo blo bst rule: extend_left.induct)
  case (1 a b alo blo besti bestj bestsize)
  show ?case
  proof (cases "besti > alo \<and> bestj > blo \<and> a ! (besti - 1) = b ! (bestj - 1)")
    case True
    have "best_ok alo blo ahi bhi (besti - 1, bestj - 1, bestsize + 1)"
      using "1.prems" True unfolding best_ok_def by auto
    then show ?thesis using "1.IH" True by (subst extend_left.simps) simp
  next
    case False
    then show ?thesis using "1.prems" by (subst extend_left.simps) auto
  qed
qed

lemma extend_right_ok:
  "match_ok alo ahi blo bhi bst \<Longrightarrow> match_ok alo ahi blo bhi (extend_right a b ahi bhi bst)"
proof (induction a b ahi bhi bst rule: extend_right.induct)
  case (1 a b ahi bhi besti bestj bestsize)
  show ?case
  proof (cases "besti + bestsize < ahi \<and> bestj + bestsize < bhi \<and>
         a ! (besti + bestsize) = b ! (bestj + bestsize)")
    case True
    have "match_ok alo ahi blo bhi (besti, bestj, bestsize + 1)"
      using "1.prems" True unfolding match_ok_def by auto
    then show ?thesis using "1.IH" True by (subst extend_right.simps) simp
  next
    case False
    then show ?thesis using "1.prems" by (subst extend_right.simps) auto
  qed
qed

lemma find_longest_match_ok:
  "match_ok alo ahi blo bhi (find_longest_match a b alo ahi blo bhi)"
proof -
  have init: "best_ok alo blo alo bhi (alo, blo, 0)" by (simp add: best_ok_def)
  have "best_ok alo blo (max alo ahi) bhi
          (snd (flm_outer a b blo bhi [alo..<ahi] (Map.empty, alo, blo, 0)))"
    by (rule flm_outer_ok[OF le_refl row_ok_empty init])
  then have "best_ok alo blo (max alo ahi) bhi
          (extend_left a b alo blo (snd (flm_outer a b blo bhi [alo..<ahi] (Map.empty, alo, blo, 0))))"
    by (rule extend_left_ok)
  then have "match_ok alo ahi blo bhi
          (extend_left a b alo blo (snd (flm_outer a b blo bhi [alo..<ahi] (Map.empty, alo, blo, 0))))"
    unfolding best_ok_def match_ok_def by (auto split: prod.splits simp: max_def split: if_splits)
  then show ?thesis unfolding find_longest_match_def by (rule extend_right_ok)
qed

lemma find_longest_match_bounds:
  assumes "find_longest_match a b alo ahi blo bhi = (i, j, k)" and "k \<noteq> 0"
  shows "alo \<le> i \<and> i + k \<le> ahi \<and> blo \<le> j \<and> j + k \<le> bhi"
  using find_longest_match_ok[of alo ahi blo bhi a b] assms by (simp add: match_ok_def)

type_synonym region = "nat \<times> nat \<times> nat \<times> nat"

definition region_weight :: "region \<Rightarrow> nat" where
  "region_weight r = (case r of (alo, ahi, blo, bhi) \<Rightarrow> 2 * (ahi - alo) + 1)"

function matching_blocks_loop :: "string \<Rightarrow> string \<Rightarrow> region list \<Rightarrow> match list \<Rightarrow> match list" where
  "matching_blocks_loop a b [] blocks = blocks"
| "matching_blocks_loop a b ((alo, ahi, blo, bhi) # queue) blocks =
     (case find_longest_match a b alo ahi blo bhi of (i, j, k) \<Rightarrow>
        if k \<noteq> 0
        then matching_blocks_loop a b
               ((if i + k < ahi \<and> j + k < bhi then [(i + k, ahi, j + k, bhi)] else []) @
                (if alo < i \<and> blo < j then [(alo, i, blo, j)] else []) @ queue)
               (blocks @ [(i, j, k)])
        else matching_blocks_loop a b queue blocks)"
  by pat_completeness auto
termination
  apply (relation "measure (\<lambda>(a, b, queue, blocks). sum_list (map region_weight queue))")
    apply simp
   apply (auto simp: region_weight_def dest!: find_longest_match_bounds[OF sym])
  done

fun collapse :: "match \<Rightarrow> match list \<Rightarrow> match list" where
  "collapse (i1, j1, k1) [] = (if k1 \<noteq> 0 then [(i1, j1, k1)] else [])"
| "collapse (i1, j1, k1) ((i2, j2, k2) # rest) =
     (if i1 + k1 = i2 \<and> j1 + k1 = j2 then collapse (i1, j1, k1 + k2) rest
      else (if k1 \<noteq> 0 then [(i1, j1, k1)] else []) @ collapse (i2, j2, k2) rest)"

definition get_matching_blocks :: "string \<Rightarrow> string \<Rightarrow> match list" where
  "get_matching_blocks a b =
     collapse (0, 0, 0) (sort (matching_blocks_loop a b [(0, length a, 0, length b)] [])) @
     [(length a, length b, 0)]"

definition ratio :: "string \<Rightarrow> string \<Rightarrow> rat" where
  "ratio a b =
     (let matches = sum_list (map (\<lambda>(i, j, k). k) (get_matching_blocks a b));
          len = length a + length b
      in if len \<noteq> 0 then 2 * of_nat matches / of_nat len else 1)"

text \<open>
  Notions for the proofs about the ratio: the total size of a list of blocks, the room
  left in a queue of regions, and, for comparing a text with itself, the length \<open>run b j\<close>
  of the stretch of characters that are not popular which ends at position \<open>j\<close>, with the
  invariants of the two loops of \<open>find_longest_match\<close> stated over it.
\<close>

definition sizes :: "match list \<Rightarrow> nat" where
  "sizes xs = sum_list (map (\<lambda>(i, j, k). k) xs)"

definition capacity :: "region list \<Rightarrow> nat" where
  "capacity rs = sum_list (map (\<lambda>(alo, ahi, blo, bhi). (ahi - alo) + (bhi - blo)) rs)"

fun run :: "string \<Rightarrow> nat \<Rightarrow> nat" where
  "run b 0 = (if popular b (b ! 0) then 0 else 1)"
| "run b (Suc j) = (if popular b (b ! Suc j) then 0 else run b j + 1)"

definition prev_ok :: "string \<Rightarrow> nat \<Rightarrow> (nat \<rightharpoonup> nat) \<Rightarrow> bool" where
  "prev_ok b i j2len =
     ((\<forall>j v. j2len j = Some v \<longrightarrow> 0 < i \<and> v \<le> run b j \<and> v \<le> run b (i - 1)) \<and>
      (0 < i \<and> \<not> popular b (b ! (i - 1)) \<longrightarrow> j2len (i - 1) = Some (run b (i - 1))))"

definition inner_ok :: "string \<Rightarrow> nat \<Rightarrow> nat list \<Rightarrow> (nat \<rightharpoonup> nat) \<times> match \<Rightarrow> bool" where
  "inner_ok b i js st = (case st of (new, bi, bj, bs) \<Rightarrow>
     bi = bj \<and> (\<forall>j<i. run b j \<le> bs) \<and> (i \<in> set js \<or> run b i \<le> bs) \<and>
     (\<forall>j v. new j = Some v \<longrightarrow> v \<le> run b j \<and> v \<le> run b i) \<and>
     (i \<notin> set js \<longrightarrow> new i = Some (run b i)))"

definition best_diag :: "string \<Rightarrow> nat \<Rightarrow> match \<Rightarrow> bool" where
  "best_diag b m bst = (case bst of (bi, bj, bs) \<Rightarrow> bi = bj \<and> (\<forall>j<m. run b j \<le> bs))"

section \<open>Conversation tracker\<close>

text \<open>
  \<open>class ConversationTracker\<close>. The attributes \<open>child_name\<close>, \<open>parent_name\<close>,
  \<open>year_group\<close> and \<open>interests\<close> are set once in \<open>__init__\<close> and never read or written
  again; they are left out. Time stamps are readings of the clock, passed in as numbers.
  An interaction is the dictionary with the keys \<open>timestamp\<close>, \<open>question\<close>, \<open>answer\<close>
  and \<open>topic\<close>.
  The set \<open>topics_discussed\<close> is kept as a duplicate-free list in insertion order.
\<close>

record interaction =
  ia_timestamp :: nat
  ia_question :: string
  ia_answer :: string
  ia_topic :: "string option"

datatype emotional_state = Neutral | Concerned

record ConversationTracker =
  session_id :: string
  family_id :: "string option"
  started_at :: nat
  interactions :: "interaction list"
  topics_discussed :: "string list"
  concerns :: "string list"
  high_intent_signals :: int
  last_topic :: "string option"
  emotional_state :: emotional_state

definition new_tracker :: "nat \<Rightarrow> string \<Rightarrow> string option \<Rightarrow> ConversationTracker" where
  "new_tracker now sid fid =
     \<lparr> session_id = sid, family_id = fid, started_at = now, interactions = [],
       topics_discussed = [], concerns = [], high_intent_signals = 0,
       last_topic = None, emotional_state = Neutral \<rparr>"

text \<open>Truthiness of an optional string: \<open>None\<close> and the empty string are false.\<close>

fun truthy :: "string option \<Rightarrow> bool" where
  "truthy None = False"
| "truthy (Some s) = (s \<noteq> [])"

definition set_add :: "string \<Rightarrow> string list \<Rightarrow> string list" where
  "set_add t ts = (if t \<in> set ts then ts else ts @ [t])"

definition high_intent_keywords :: "string list" where
  "high_intent_keywords =
     [''apply'', ''visit'', ''fee'', ''scholarship'', ''when can'', ''how do I'', ''register'']"

definition concern_keywords :: "string list" where
  "concern_keywords =
     [''worried'', ''concern'', ''anxiety'', ''difficult'', ''struggle'', ''help'',
      ''support'', ''nervous'']"

definition add_interaction ::
  "nat \<Rightarrow> string \<Rightarrow> string \<Rightarrow> string option \<Rightarrow> ConversationTracker \<Rightarrow> ConversationTracker" where
  "add_interaction now q a tp t =
     (let t1 = t\<lparr> interactions := interactions t @
                   [\<lparr> ia_timestamp = now, ia_question = q, ia_answer = take 200 a, ia_topic = tp \<rparr>] \<rparr>;
          t2 = (if truthy tp
                then t1\<lparr> topics_discussed := set_add (the tp) (topics_discussed t1),
                         last_topic := tp \<rparr>
                else t1);
          t3 = (if any_in high_intent_keywords (lower q)
                then t2\<lparr> high_intent_signals := high_intent_signals t2 + 1 \<rparr>
                else t2)
      in if any_in concern_keywords (lower q)
         then t3\<lparr> concerns := concerns t3 @ [q], emotional_state := Concerned \<rparr>
         else t3)"

definition should_offer_human_handoff :: "ConversationTracker \<Rightarrow> bool" where
  "should_offer_human_handoff t =
     (high_intent_signals t \<ge> 3 \<or> length (concerns t) \<ge> 2 \<or>
      length (interactions t) \<ge> 10 \<or> emotional_state t = Concerned)"

section \<open>Response enhancer\<close>

text \<open>
  \<open>class ResponseEnhancer\<close>. The family context is the dictionary that
  \<open>fetch_family_context\<close> returns; the enhancer reads its entry \<open>child_name\<close> only.
  In \<open>_add_acknowledgment\<close> the test \<open>context.last_topic in str(context.topics_discussed)\<close>
  is a substring test on the printed set, and raises \<open>TypeError\<close> when \<open>last_topic\<close> is
  \<open>None\<close>.

  The exceptions of the program are values of the type \<open>error\<close>: the three built-in ones
  that the modelled code can raise itself, and \<open>APIError\<close> for whatever a call to the
  embedding or chat provider raises (no connection, a refused key, an empty reply).
\<close>

datatype error = TypeError | ValueError | IndexError | APIError

record family_ctx =
  child_name :: "string option"

definition follow_up_questions :: "(string \<times> string list) list" where
  "follow_up_questions =
     [(''fees'',
        [''Are you also interested in our scholarship opportunities?'',
         ''Would you like to know about our payment plans?'',
         ''Shall I explain our bursary programme?'']),
      (''sports'',
        [''What sports does {child_name} enjoy currently?'',
         ''Is {child_name} interested in competitive teams or recreational activities?'',
         ''Would you like to know about our sports facilities?'']),
      (''academic'',
        [''What subjects does {child_name} particularly enjoy?'',
         ''Are you interested in our academic enrichment programmes?'',
         ''Would you like to see our recent exam results?'']),
      (''admissions'',
        [''Which year group are you considering for entry?'',
         ''Would you like to book a personal tour?'',
         ''Shall I explain our application timeline?'']),
      (''pastoral'',
        [''Is there anything specific about {child_name}'' @ [CHR 0x27] @ ''s needs I should know?'',
         ''Would you like to speak with our pastoral team?'',
         ''Are you interested in our wellbeing programmes?''])]"

definition reassurance_phrases :: "string list" where
  "reassurance_phrases =
     [''That'' @ [CHR 0x27] @ ''s a very common concern, and I'' @ [CHR 0x27] @ ''m happy to address it...'',
      ''Many parents ask about this, and it'' @ [CHR 0x27] @ ''s important to get it right...'',
      ''I completely understand why you'' @ [CHR 0x27] @ ''d want to know about this...'',
      ''That'' @ [CHR 0x27] @ ''s an excellent question, and I'' @ [CHR 0x27] @ ''m glad you asked...'']"

definition greeting :: string where
  "greeting = ''Hello! What a lovely question to start with.''"

definition acknowledgments :: "string list" where
  "acknowledgments =
     [''That'' @ [CHR 0x27] @ ''s a great question.'',
      ''I'' @ [CHR 0x27] @ ''m glad you asked about that.'',
      ''Let me tell you about that.'',
      ''Excellent question.'',
      ''Many families ask about this.'']"

definition add_acknowledgment :: "ConversationTracker \<Rightarrow> error + string" where
  "add_acknowledgment context =
     (if length (interactions context) = 0 then Inr greeting
      else case last_topic context of
             None \<Rightarrow> Inl TypeError
           | Some lt \<Rightarrow>
               if str_in lt (str_of_set (topics_discussed context))
               then Inr ''Following on from what we discussed...''
               else if emotional_state context = Concerned
               then Inr ''I can hear this is important to you.''
               else Inr (acknowledgments !
                          (length (interactions context) mod length acknowledgments)))"

definition categorize_topic :: "string option \<Rightarrow> string" where
  "categorize_topic tp =
     (let topic_lower = (if truthy tp then lower (the tp) else [])
      in if any_in [''fee'', ''cost'', ''price'', ''burs'', ''scholar''] topic_lower then ''fees''
         else if any_in [''sport'', ''athletic'', ''team'', ''football'', ''netball''] topic_lower
         then ''sports''
         else if any_in [''academic'', ''subject'', ''curriculum'', ''exam'', ''result''] topic_lower
         then ''academic''
         else if any_in [''admission'', ''apply'', ''join'', ''entry'', ''register''] topic_lower
         then ''admissions''
         else if any_in [''pastoral'', ''care'', ''wellbeing'', ''support'', ''help''] topic_lower
         then ''pastoral''
         else ''general'')"

definition has_child_name :: "family_ctx option \<Rightarrow> bool" where
  "has_child_name family = (case family of None \<Rightarrow> False | Some f \<Rightarrow> truthy (child_name f))"

definition get_follow_up_question :: "ConversationTracker \<Rightarrow> family_ctx option \<Rightarrow> string" where
  "get_follow_up_question context family =
     (if \<not> truthy (last_topic context)
      then ''Is there anything specific you'' @ [CHR 0x27] @
           ''d like to know about Cheltenham College?''
      else
        let topic_key = categorize_topic (last_topic context);
            questions = (case map_of follow_up_questions topic_key of
                           Some qs \<Rightarrow> qs
                         | None \<Rightarrow> [''What else would you like to know?'']);
            q = questions ! (length (interactions context) mod length questions)
        in if has_child_name family
           then replace ''{child_name}'' (the (child_name (the family))) q
           else replace ''{child_name}'' ''your daughter'' q)"

definition handoff_offer :: string where
  "handoff_offer =
     '' By the way, would you like me to arrange for someone from our admissions team to call you directly?''"

definition enhance_for_voice ::
  "string \<Rightarrow> ConversationTracker \<Rightarrow> family_ctx option \<Rightarrow> error + string" where
  "enhance_for_voice base_answer context family =
     (case add_acknowledgment context of
        Inl e \<Rightarrow> Inl e
      | Inr ack \<Rightarrow>
          let e1 = ack @ '' '' @ base_answer;
              e2 = (if has_child_name family
                    then replace ''your daughter'' (the (child_name (the family)))
                           (replace ''your child'' (the (child_name (the family))) e1)
                    else e1);
              e3 = (if emotional_state context = Concerned
                    then reassurance_phrases !
                           (length (concerns context) mod length reassurance_phrases) @ '' '' @ e2
                    else e2);
              follow_up = get_follow_up_question context family;
              e4 = (if follow_up \<noteq> [] then e3 @ '' '' @ follow_up else e3)
          in Inr (if should_offer_human_handoff context \<and> length (interactions context) mod 5 = 0
                  then e4 @ handoff_offer else e4))"

section \<open>The environment of a request\<close>

text \<open>
  What a call reads from outside itself: the static answer table \<open>STATIC_QAS\<close>, the events
  that \<open>get_open_day_events\<close> returns (the empty list when the cache cannot be read), the
  translator (\<open>None\<close> when it raises), the family lookup, the clock, the identifier that
  \<open>uuid.uuid4\<close> draws, the knowledge base (\<open>EMBEDDINGS\<close> with its shape, and \<open>METADATA\<close>),
  the embedding and chat collaborators, and \<open>improve_answer\<close>, which stands for the
  regular-expression rewriting of the generated text in the retrieval tier (from the
  detected topic and the raw text to the improved answer). \<open>embed_text\<close> and the chat
  completion call the provider with no \<open>try\<close> around the call, in the function
  itself or in its callers: each returns its value or raises, and the exception reaches the
  caller of \<open>find_best_answer\<close>. The entries of the table, the events and the passages
  are records with the keys the code reads.
\<close>

record static_qa =
  qa_key :: string
  qa_language :: string
  qa_answer :: string
  qa_variants :: "string list"
  qa_url :: "string option"
  qa_label :: "string option"

record open_day_event =
  event_name :: string
  date_iso :: string
  date_human :: string
  booking_link :: string

record kb_chunk =
  chunk_text :: "string option"
  chunk_url :: "string option"

record ndarray =
  shape :: "nat list"
  rows :: "real list list"

record env =
  STATIC_QAS :: "static_qa list"
  open_day_events :: "open_day_event list"
  translate :: "string \<Rightarrow> string \<Rightarrow> string option"
  fetch_family_context :: "string \<Rightarrow> family_ctx option"
  now :: nat
  uuid4 :: string
  EMBEDDINGS :: ndarray
  METADATA :: "kb_chunk list"
  embed_text :: "string \<Rightarrow> error + real list"
  chat_completion :: "string \<Rightarrow> error + string"
  improve_answer :: "string option \<Rightarrow> string \<Rightarrow> string"

section \<open>Vector search\<close>

text \<open>
  \<open>vector_search\<close>. Its first statement is \<open>q_vec = embed_text(query)\<close>, before the two
  guards on the store: an exception of the embedding call leaves the function at once.
  Similarities are computed over the reals instead of 32-bit floats.
  The product \<open>EMBEDDINGS @ q_vec\<close> raises \<open>ValueError\<close> when a row and the query differ in
  length. \<open>np.argsort\<close> and \<open>np.argpartition\<close> leave the order of equal entries open; the
  model sorts stably, and takes the full ascending sort as the partition.
\<close>

definition ndim :: "ndarray \<Rightarrow> nat" where
  "ndim E = length (shape E)"

definition dot :: "real list \<Rightarrow> real list \<Rightarrow> real" where
  "dot u v = sum_list (map2 (*) u v)"

definition linalg_norm :: "real list \<Rightarrow> real" where
  [code del]: "linalg_norm v = sqrt (dot v v)"

definition matvec :: "real list list \<Rightarrow> real list \<Rightarrow> error + real list" where
  "matvec M v = (if list_all (\<lambda>r. length r = length v) M
                 then Inr (map (\<lambda>r. dot r v) M) else Inl ValueError)"

definition argsort :: "real list \<Rightarrow> nat list" where
  "argsort xs = map snd (sort_key fst (zip xs [0..<length xs]))"

text \<open>\<open>lastn k xs\<close> is the slice \<open>xs[-k:]\<close>.\<close>

definition lastn :: "nat \<Rightarrow> 'a list \<Rightarrow> 'a list" where
  "lastn k xs = (if k = 0 then xs else drop (length xs - k) xs)"

definition vector_search :: "env \<Rightarrow> string \<Rightarrow> nat \<Rightarrow> error + (real list \<times> nat list)" where
  "vector_search e query k =
     (case embed_text e query of
        Inl err \<Rightarrow> Inl err
      | Inr q_vec \<Rightarrow>
          let E = EMBEDDINGS e
          in if ndim E \<noteq> 2 \<or> shape E ! 0 = 0 then Inr ([], [])
             else if shape E ! 1 \<noteq> length q_vec then Inr ([], [])
             else
               let norm_q = linalg_norm q_vec + 1 / 10 ^ 10;
                   norms = map (\<lambda>r. linalg_norm r + 1 / 10 ^ 10) (rows E)
               in case matvec (rows E) q_vec of
                    Inl err \<Rightarrow> Inl err
                  | Inr prods \<Rightarrow>
                      let sims = map2 (\<lambda>p n. p / (n * norm_q)) prods norms
                      in if k \<ge> length sims then Inr (sims, rev (argsort sims))
                         else
                           let top_k = lastn k (argsort sims)
                           in Inr (sims, map (\<lambda>p. top_k ! p)
                                           (rev (argsort (map (\<lambda>i. sims ! i) top_k)))))"

section \<open>Answer formatting helpers\<close>

definition detect_topic_from_question :: "string \<Rightarrow> string option" where
  "detect_topic_from_question question_text =
     (let q_lower = lower question_text
      in if any_in [''fee'', ''cost'', ''price'', ''tuition'', ''charges''] q_lower then Some ''fees''
         else if any_in [''admission'', ''apply'', ''join'', ''register''] q_lower
         then Some ''admissions''
         else if any_in [''subject'', ''curriculum'', ''academic''] q_lower then Some ''subjects''
         else if any_in [''boarding'', ''boarder'', ''house''] q_lower then Some ''boarding''
         else if any_in [''scholarship'', ''bursary'', ''award''] q_lower then Some ''scholarships''
         else if any_in [''open'', ''visit'', ''tour''] q_lower then Some ''open_events''
         else if any_in [''sixth form'', ''a level'', ''upper college''] q_lower
         then Some ''sixth_form''
         else if any_in [''sport'', ''athletics'', ''rugby'', ''netball''] q_lower then Some ''sport''
         else None)"

definition topic_urls :: "(string \<times> string \<times> string) list" where
  "topic_urls =
     [(''fees'', ''https://www.cheltenhamcollege.org/admissions/fees/'', ''View fees page''),
      (''admissions'', ''https://www.cheltenhamcollege.org/admissions/'', ''Visit admissions page''),
      (''subjects'', ''https://www.cheltenhamcollege.org/college/curriculum/'', ''Explore curriculum''),
      (''boarding'', ''https://www.cheltenhamcollege.org/college/boarding/'',
         ''Discover boarding life''),
      (''scholarships'', ''https://www.cheltenhamcollege.org/admissions/scholarships-awards/'',
         ''View scholarships''),
      (''open_events'', ''https://www.cheltenhamcollege.org/admissions/visit-us/open-events/'',
         ''Book open event''),
      (''sixth_form'', ''https://www.cheltenhamcollege.org/college/upper-college-16-18/'',
         ''Learn about Sixth Form''),
      (''sport'', ''https://www.cheltenhamcollege.org/college/co-curricular/sport/'',
         ''Explore sports'')]"

definition get_better_url_and_label :: "string option \<Rightarrow> string option \<Rightarrow> string \<times> string" where
  "get_better_url_and_label detected_topic meta_url =
     (case (if truthy detected_topic then map_of topic_urls (the detected_topic) else None) of
        Some ul \<Rightarrow> ul
      | None \<Rightarrow> (if truthy meta_url then the meta_url else ''https://www.cheltenhamcollege.org/'',
                 ''Visit website''))"

section \<open>The matcher pipeline\<close>

text \<open>
  \<open>find_best_answer\<close>. The session registry \<open>conversation_memory\<close> is a dictionary from
  session identifiers to trackers; the call takes it and returns it updated. The outcome
  holds what the call returns (or the exception it raises), the registry after the call,
  and the local variable \<open>tracker\<close> as it stands when the call ends (\<open>None\<close> when the call
  ends before a tracker is resolved). A tracker taken from the registry is the registry's
  own object, so \<open>store\<close> writes every change to it back under the session identifier.
\<close>

type_synonym registry = "string \<rightharpoonup> ConversationTracker"

type_synonym answer_tuple = "string \<times> string option \<times> string option \<times> string option \<times> string"

record outcome =
  result :: "error + answer_tuple"
  memory :: registry
  tracker :: "ConversationTracker option"

definition OPEN_DAYS_URL :: string where
  "OPEN_DAYS_URL = ''https://www.cheltenhamcollege.org/admissions/visit-us/open-events/''"

definition open_day_keywords :: "string list" where
  "open_day_keywords = [''open day'', ''open morning'', ''open evening'', ''visit'', ''tour'']"

definition no_match_response :: string where
  "no_match_response =
     ''I'' @ [CHR 0x27] @ ''m sorry, I don'' @ [CHR 0x27] @
     ''t have that specific information to hand. Would you like me to connect you with our admissions team who can help?''"

text \<open>The question as the tiers compare it: \<open>question.strip().lower()\<close>.\<close>

definition q_lower_of :: "string \<Rightarrow> string" where
  "q_lower_of question = lower (strip question)"

text \<open>
  The variable \<open>q_for_match\<close>: the question translated to English, stripped and
  lower-cased, or \<open>q_lower\<close> when the language is English or the translator raises.
\<close>

definition q_for_match_of :: "env \<Rightarrow> string \<Rightarrow> string \<Rightarrow> string" where
  "q_for_match_of e question lang =
     (if lang \<noteq> ''en''
      then (case translate e question ''en'' of
              Some t \<Rightarrow> lower (strip t)
            | None \<Rightarrow> q_lower_of question)
      else q_lower_of question)"

definition open_days_answer :: "env \<Rightarrow> answer_tuple" where
  "open_days_answer e =
     (let events = open_day_events e
      in if events \<noteq> []
         then
           let next_event = hd (sort_key date_iso events)
           in (''Our next '' @ event_name next_event @ '' is on '' @ date_human next_event @
               ''. You can find more details and register here: '' @ booking_link next_event,
               Some (booking_link next_event), Some ''Open Days'', Some ''open_days'', ''open_days'')
         else
           (''We don'' @ [CHR 0x27] @
            ''t currently have any upcoming Open Days listed. You can check back soon on our [Admissions page]('' @
            OPEN_DAYS_URL @ '').'',
            Some OPEN_DAYS_URL, Some ''Admissions'', Some ''open_days'', ''open_days''))"

definition resolve_tracker ::
  "env \<Rightarrow> registry \<Rightarrow> string option \<Rightarrow> string option \<Rightarrow> registry \<times> ConversationTracker" where
  "resolve_tracker e mem sid fid =
     (if truthy sid
      then
        let mem' = (if the sid \<notin> dom mem
                    then mem(the sid \<mapsto> new_tracker (now e) (the sid) fid) else mem)
        in (mem', the (mem' (the sid)))
      else (mem, new_tracker (now e) (uuid4 e) fid))"

definition store :: "registry \<Rightarrow> string option \<Rightarrow> ConversationTracker \<Rightarrow> registry" where
  "store mem sid t = (if truthy sid then mem(the sid \<mapsto> t) else mem)"

definition variants_of :: "static_qa \<Rightarrow> string list" where
  "variants_of qa = qa_key qa # qa_variants qa"

text \<open>The exact tier: the first entry of the language with a variant equal to \<open>q_lower\<close>.\<close>

definition exact_match :: "static_qa list \<Rightarrow> string \<Rightarrow> string \<Rightarrow> static_qa option" where
  "exact_match qas lang q_lower =
     find (\<lambda>qa. qa_language qa = lang \<and> q_lower \<in> set (map lower (variants_of qa))) qas"

text \<open>The two loops of the fuzzy tier, on the pair \<open>(best_score, best_match)\<close>.\<close>

fun fuzzy_variants ::
  "string \<Rightarrow> static_qa \<Rightarrow> string list \<Rightarrow> rat \<times> static_qa option \<Rightarrow> rat \<times> static_qa option" where
  "fuzzy_variants q_lower qa [] st = st"
| "fuzzy_variants q_lower qa (var # vars) (best_score, best_match) =
     (let score = ratio q_lower (lower var)
      in if score > best_score then fuzzy_variants q_lower qa vars (score, Some qa)
         else fuzzy_variants q_lower qa vars (best_score, best_match))"

fun fuzzy_scan ::
  "string \<Rightarrow> string \<Rightarrow> static_qa list \<Rightarrow> rat \<times> static_qa option \<Rightarrow> rat \<times> static_qa option" where
  "fuzzy_scan q_lower lang [] st = st"
| "fuzzy_scan q_lower lang (qa # qas) st =
     (if qa_language qa \<noteq> lang then fuzzy_scan q_lower lang qas st
      else fuzzy_scan q_lower lang qas (fuzzy_variants q_lower qa (variants_of qa) st))"

text \<open>
  The fuzzy tier: both loops from \<open>best_score = 0\<close> and \<open>best_match = None\<close>, then the test
  \<open>best_match and best_score > 0.8\<close>.
\<close>

definition fuzzy_match :: "static_qa list \<Rightarrow> string \<Rightarrow> string \<Rightarrow> static_qa option" where
  "fuzzy_match qas lang q_lower =
     (case fuzzy_scan q_lower lang qas (0, None) of
        (best_score, best_match) \<Rightarrow>
          if best_match \<noteq> None \<and> best_score > 8 / 10 then best_match else None)"

text \<open>
  The fuzzy tier in the words of its specification: among the entries of the language,
  take the greatest ratio over all their variants; if it exceeds 0.8, the first entry in
  table order with a variant of that ratio is the match, and otherwise there is none.
\<close>

definition fuzzy_spec :: "static_qa list \<Rightarrow> string \<Rightarrow> string \<Rightarrow> static_qa option" where
  "fuzzy_spec qas lang q_lower =
     (let same_language = filter (\<lambda>qa. qa_language qa = lang) qas;
          score = (\<lambda>qa. map (\<lambda>v. ratio q_lower (lower v)) (variants_of qa));
          scores = concat (map score same_language)
      in if scores = [] then None
         else if Max (set scores) > 8 / 10
         then find (\<lambda>qa. Max (set scores) \<in> set (score qa)) same_language
         else None)"

text \<open>The fuzzy loops as one fold over the scored variants, for the proofs.\<close>

definition fuzzy_step :: "static_qa \<times> rat \<Rightarrow> rat \<times> static_qa option \<Rightarrow> rat \<times> static_qa option" where
  "fuzzy_step p st = (if snd p > fst st then (snd p, Some (fst p)) else st)"

definition scored_variants :: "string \<Rightarrow> static_qa list \<Rightarrow> (static_qa \<times> rat) list" where
  "scored_variants q_lower qas =
     concat (map (\<lambda>qa. map (\<lambda>v. (qa, ratio q_lower (lower v))) (variants_of qa)) qas)"

text \<open>
  \<open>enhance_if_session\<close> is the step \<open>if session_id: answer = enhance_for_voice(...)\<close>,
  with the family looked up only when a family identifier is given.
\<close>

definition enhance_if_session ::
  "(string \<Rightarrow> ConversationTracker \<Rightarrow> family_ctx option \<Rightarrow> error + string) \<Rightarrow> env \<Rightarrow>
   string option \<Rightarrow> string option \<Rightarrow> string \<Rightarrow> ConversationTracker \<Rightarrow> error + string" where
  "enhance_if_session enh e sid fid ans t =
     (if truthy sid
      then enh ans t (if truthy fid then fetch_family_context e (the fid) else None)
      else Inr ans)"

definition nth_opt :: "'a list \<Rightarrow> nat \<Rightarrow> error + 'a" where
  "nth_opt xs i = (if i < length xs then Inr (xs ! i) else Inl IndexError)"

fun collect :: "(error + 'a) list \<Rightarrow> error + 'a list" where
  "collect [] = Inr []"
| "collect (Inl err # xs) = Inl err"
| "collect (Inr x # xs) = (case collect xs of Inl err \<Rightarrow> Inl err | Inr ys \<Rightarrow> Inr (x # ys))"

definition build_prompt :: "ConversationTracker \<Rightarrow> string list \<Rightarrow> string \<Rightarrow> string" where
  "build_prompt t contexts question =
     (let conversation_context =
            (if length (interactions t) > 0
             then ''Previous context: '' @
                  join '' | '' (map (\<lambda>i. ''Q: '' @ take 50 (ia_question i)) (lastn 3 (interactions t)))
             else [])
      in (if conversation_context \<noteq> [] then conversation_context @ [CHR 0x0A, CHR 0x0A] else []) @
         ''Use ONLY the passages below to answer.'' @ [CHR 0x0A, CHR 0x0A] @
         join ([CHR 0x0A] @ ''---'' @ [CHR 0x0A]) contexts @
         [CHR 0x0A, CHR 0x0A] @ ''Question: '' @ question @ [CHR 0x0A] @ ''Answer:'')"

text \<open>The retrieval tier, from the indices of a non-empty search result on.\<close>

definition rag_answer ::
  "(string \<Rightarrow> ConversationTracker \<Rightarrow> family_ctx option \<Rightarrow> error + string) \<Rightarrow> env \<Rightarrow> registry \<Rightarrow>
   ConversationTracker \<Rightarrow> nat list \<Rightarrow> string \<Rightarrow> string \<Rightarrow> string option \<Rightarrow> string option \<Rightarrow> outcome" where
  "rag_answer enh e mem t idxs question lang sid fid =
     (case collect (map (nth_opt (METADATA e)) (take 10 idxs)) of
        Inl err \<Rightarrow> \<lparr> result = Inl err, memory = mem, tracker = Some t \<rparr>
      | Inr chunks \<Rightarrow>
          let contexts = map (\<lambda>c. case chunk_text c of Some x \<Rightarrow> x | None \<Rightarrow> []) chunks
          in case chat_completion e (build_prompt t contexts question) of
               Inl err \<Rightarrow> \<lparr> result = Inl err, memory = mem, tracker = Some t \<rparr>
             | Inr raw \<Rightarrow>
                 (case nth_opt (METADATA e) (idxs ! 0) of
                    Inl err \<Rightarrow> \<lparr> result = Inl err, memory = mem, tracker = Some t \<rparr>
                  | Inr meta \<Rightarrow>
                      let detected_topic = detect_topic_from_question question;
                          improved_answer = improve_answer e detected_topic raw;
                          (better_url, better_label) =
                             get_better_url_and_label detected_topic (chunk_url meta);
                          t' = add_interaction (now e) question improved_answer (Some ''general'') t;
                          mem' = store mem sid t'
                      in case enhance_if_session enh e sid fid improved_answer t' of
                           Inl err \<Rightarrow> \<lparr> result = Inl err, memory = mem', tracker = Some t' \<rparr>
                         | Inr enhanced \<Rightarrow>
                             let final = (if lang \<noteq> ''en''
                                          then (case translate e enhanced lang of
                                                  Some tr \<Rightarrow> tr | None \<Rightarrow> enhanced)
                                          else enhanced)
                             in \<lparr> result = Inr (final, Some better_url, Some better_label, None,
                                                ''rag''),
                                  memory = mem', tracker = Some t' \<rparr>))"

text \<open>
  The tiers after the open-days shortcut, with the enhancer \<open>response_enhancer\<close> as a
  parameter.
\<close>

definition answer_with_tracker ::
  "(string \<Rightarrow> ConversationTracker \<Rightarrow> family_ctx option \<Rightarrow> error + string) \<Rightarrow> env \<Rightarrow> registry \<Rightarrow>
   ConversationTracker \<Rightarrow> string \<Rightarrow> string \<Rightarrow> string option \<Rightarrow> string option \<Rightarrow> outcome" where
  "answer_with_tracker enh e mem t question lang sid fid =
     (let q_lower = q_lower_of question
      in case exact_match (STATIC_QAS e) lang q_lower of
           Some qa \<Rightarrow>
             let t' = add_interaction (now e) question (qa_answer qa) (Some (qa_key qa)) t;
                 mem' = store mem sid t'
             in (case enhance_if_session enh e sid fid (qa_answer qa) t' of
                   Inl err \<Rightarrow> \<lparr> result = Inl err, memory = mem', tracker = Some t' \<rparr>
                 | Inr ans \<Rightarrow>
                     \<lparr> result = Inr (ans, qa_url qa, qa_label qa, Some (qa_key qa), ''static''),
                       memory = mem', tracker = Some t' \<rparr>)
         | None \<Rightarrow>
             (case fuzzy_match (STATIC_QAS e) lang q_lower of
                Some bm \<Rightarrow>
                  let t' = add_interaction (now e) question (qa_answer bm) (Some (qa_key bm)) t;
                      mem' = store mem sid t'
                  in (case enhance_if_session enh e sid fid (qa_answer bm) t' of
                        Inl err \<Rightarrow> \<lparr> result = Inl err, memory = mem', tracker = Some t' \<rparr>
                      | Inr ans \<Rightarrow>
                          \<lparr> result = Inr (ans, qa_url bm, qa_label bm, Some (qa_key bm), ''fuzzy''),
                            memory = mem', tracker = Some t' \<rparr>)
              | None \<Rightarrow>
                  (case vector_search e question 10 of
                     Inl err \<Rightarrow> \<lparr> result = Inl err, memory = mem, tracker = Some t \<rparr>
                   | Inr (sims, idxs) \<Rightarrow>
                       if length idxs > 0
                       then rag_answer enh e mem t idxs question lang sid fid
                       else if truthy sid
                       then
                         (let t' = add_interaction (now e) question no_match_response
                                    (Some ''unknown'') t
                          in \<lparr> result = Inr (no_match_response, None, None, None, ''none''),
                               memory = store mem sid t', tracker = Some t' \<rparr>)
                       else \<lparr> result = Inr (no_match_response, None, None, None, ''none''),
                              memory = mem, tracker = Some t \<rparr>)))"

definition find_best_answer_with ::
  "(string \<Rightarrow> ConversationTracker \<Rightarrow> family_ctx option \<Rightarrow> error + string) \<Rightarrow> env \<Rightarrow> registry \<Rightarrow>
   string \<Rightarrow> string \<Rightarrow> string option \<Rightarrow> string option \<Rightarrow> outcome" where
  "find_best_answer_with enh e mem question lang sid fid =
     (let q_lower = q_lower_of question;
          q_for_match = q_for_match_of e question lang
      in if any_in open_day_keywords q_lower
         then \<lparr> result = Inr (open_days_answer e), memory = mem, tracker = None \<rparr>
         else
           let (mem', t) = resolve_tracker e mem sid fid
           in answer_with_tracker enh e mem' t question lang sid fid)"

definition find_best_answer ::
  "env \<Rightarrow> registry \<Rightarrow> string \<Rightarrow> string \<Rightarrow> string option \<Rightarrow> string option \<Rightarrow> outcome" where
  "find_best_answer = find_best_answer_with enhance_for_voice"

text \<open>
  \<open>recorded_once q t0 t1\<close>: the interactions of \<open>t1\<close> are those of \<open>t0\<close> and one more, whose
  question is \<open>q\<close>.
\<close>

definition recorded_once :: "string \<Rightarrow> ConversationTracker \<Rightarrow> ConversationTracker \<Rightarrow> bool" where
  "recorded_once q t0 t1 =
     (interactions t1 = interactions t0 @ [last (interactions t1)] \<and>
      ia_question (last (interactions t1)) = q)"

section \<open>Example environments\<close>

text \<open>
  Two small environments for evaluating the definitions: an English table with two entries
  and an empty knowledge base, and a variant whose table is tagged French and whose
  translator turns every question into \<open>fees\<close>.
\<close>

definition example_env :: env where
  "example_env =
     \<lparr> STATIC_QAS =
         [\<lparr> qa_key = ''admissions'', qa_language = ''en'',
            qa_answer = ''Cheltenham College admissions information, entry process and who to contact.'',
            qa_variants = [''admissions'', ''apply'', ''join''],
            qa_url = Some ''https://www.cheltenhamcollege.org/admissions/'',
            qa_label = Some ''Admissions'' \<rparr>,
          \<lparr> qa_key = ''fees'', qa_language = ''en'', qa_answer = ''A'',
            qa_variants = [''fees'', ''tuition''], qa_url = None, qa_label = None \<rparr>],
       open_day_events = [],
       translate = (\<lambda>txt target. None),
       fetch_family_context = (\<lambda>fid. None),
       now = 0,
       uuid4 = ''00000000-0000-4000-8000-000000000000'',
       EMBEDDINGS = \<lparr> shape = [0], rows = [] \<rparr>,
       METADATA = [],
       embed_text = (\<lambda>txt. Inr []),
       chat_completion = (\<lambda>prompt. Inr []),
       improve_answer = (\<lambda>tp raw. raw) \<rparr>"

definition french_env :: env where
  "french_env =
     example_env
       \<lparr> STATIC_QAS :=
           [\<lparr> qa_key = ''fees'', qa_language = ''fr'', qa_answer = ''Les frais'',
              qa_variants = [''fees'', ''tuition''], qa_url = None, qa_label = None \<rparr>],
         translate := (\<lambda>txt target. if target = ''en'' then Some ''fees'' else None) \<rparr>"

text \<open>
  A table with awkward keys: \<open>entry\<close> is also a variant of the entry before it,
  \<open>school tour\<close> holds an open-days keyword, and the last key starts with a blank.
\<close>

definition awkward_env :: env where
  "awkward_env =
     example_env
       \<lparr> STATIC_QAS :=
           [\<lparr> qa_key = ''admissions'', qa_language = ''en'', qa_answer = ''How to apply.'',
              qa_variants = [''admissions'', ''apply'', ''entry''],
              qa_url = Some ''https://www.cheltenhamcollege.org/admissions/'',
              qa_label = Some ''Admissions'' \<rparr>,
            \<lparr> qa_key = ''entry'', qa_language = ''en'', qa_answer = ''Entry points.'',
              qa_variants = [''entry''], qa_url = None, qa_label = Some ''Entry'' \<rparr>,
            \<lparr> qa_key = ''school tour'', qa_language = ''en'', qa_answer = ''Tours run weekly.'',
              qa_variants = [''school tour''], qa_url = None, qa_label = Some ''Tours'' \<rparr>,
            \<lparr> qa_key = '' fees'', qa_language = ''en'', qa_answer = ''Fees are termly.'',
              qa_variants = [], qa_url = None, qa_label = Some ''Fees'' \<rparr>] \<rparr>"

text \<open>The entry \<open>open events\<close> of the shipped table, on its own.\<close>

definition open_events_env :: env where
  "open_events_env =
     example_env
       \<lparr> STATIC_QAS :=
           [\<lparr> qa_key = ''open events'', qa_language = ''en'',
              qa_answer = ''We host open mornings and visit opportunities throughout the year. Choose a date and register online.'',
              qa_variants = [''open morning'', ''open day'', ''visit'', ''tour'', ''open evening''],
              qa_url = Some ''https://www.cheltenhamcollege.org/admissions/visit-us/'',
              qa_label = Some ''Open events'' \<rparr>] \<rparr>"

text \<open>A table whose only entry has the empty key.\<close>

definition empty_key_env :: env where
  "empty_key_env =
     example_env
       \<lparr> STATIC_QAS :=
           [\<lparr> qa_key = [], qa_language = ''en'', qa_answer = ''Welcome.'',
              qa_variants = [''welcome''], qa_url = None, qa_label = None \<rparr>] \<rparr>"


section \<open>Substring tests on lower-cased text\<close>

lemma startswith_subset: "startswith s p \<Longrightarrow> set p \<subseteq> set s"
  by (induction s p rule: startswith.induct) auto

lemma str_in_subset: "str_in sub s \<Longrightarrow> set sub \<subseteq> set s"
proof (induction s)
  case Nil
  then show ?case by simp
next
  case (Cons c cs)
  then show ?case using startswith_subset[of "c # cs" sub] by auto
qed

lemma lower_char_not_upper_I: "lower_char c \<noteq> CHR ''I''"
  by (auto simp: lower_char_def split: option.splits if_splits)

lemma how_do_I_never_found: "\<not> str_in ''how do I'' (lower q)"
proof
  assume "str_in ''how do I'' (lower q)"
  then have "CHR ''I'' \<in> set (lower q)" using str_in_subset by fastforce
  then obtain c where "CHR ''I'' = lower_char c" by (auto simp: lower_def)
  then show False using lower_char_not_upper_I[of c] by simp
qed

section \<open>High-intent detection (C4)\<close>

text \<open>
  Claim C4: \<open>add_interaction\<close> increments \<open>high_intent_signals\<close> exactly when the
  lower-cased question contains one of the keywords. The keyword list of the code spells
  the sixth keyword \<open>how do I\<close> with a capital letter, which a lower-cased text never
  contains: the counter goes up by one exactly when one of the six other keywords
  (apply, visit, fee, scholarship, when can, register) occurs, and a question with
  \<open>how do i\<close> and none of them leaves it as it was.
\<close>

theorem high_intent_detection:
  "high_intent_signals (add_interaction ts q a tp t) =
     high_intent_signals t +
     (if any_in [''apply'', ''visit'', ''fee'', ''scholarship'', ''when can'', ''register''] (lower q)
      then 1 else 0)"
  using how_do_I_never_found[of q]
  by (simp add: add_interaction_def Let_def any_in_def high_intent_keywords_def)

text \<open>The question \<open>How do I join?\<close> on a fresh tracker leaves the counter at 0.\<close>

lemma how_do_i_example:
  "high_intent_signals (add_interaction 0 ''How do I join?'' ''x'' None (new_tracker 0 ''s'' None)) = 0"
  by code_simp

section \<open>Guards of the vector search (C7)\<close>




text \<open>
  In general an exception of the embedding call leaves \<open>vector_search\<close>, whatever the
  store holds.
\<close>

lemma vector_search_embedding_error:
  "embed_text e query = Inl err \<Longrightarrow> vector_search e query k = Inl err"
  by (simp add: vector_search_def)

section \<open>The translated question (C3)\<close>

text \<open>
  Claim C3: for a language other than English and a translator that succeeds, the exact
  tier compares the translated question. The code computes \<open>q_for_match\<close> and then
  compares \<open>q_lower\<close>: the French question \<open>Frais\<close> is translated to \<open>fees\<close>, which is a
  variant of the French-tagged entry, and still the call ends in the no-match answer.
\<close>

theorem translated_question_unused:
  "q_for_match_of french_env ''Frais'' ''fr'' = ''fees'' \<and>
   exact_match (STATIC_QAS french_env) ''fr'' ''fees'' \<noteq> None \<and>
   result (find_best_answer french_env Map.empty ''Frais'' ''fr'' None None) =
     Inr (no_match_response, None, None, None, ''none'')"
  by code_simp

text \<open>
  More generally, what the translator returns for the target \<open>en\<close> never reaches the
  outcome: two translators that agree on every other target give the same outcome.
\<close>

lemma vector_search_translate [simp]:
  "vector_search (e\<lparr>translate := tr\<rparr>) q k = vector_search e q k"
  by (simp add: vector_search_def split: sum.splits)

lemma enhance_if_session_translate [simp]:
  "enhance_if_session enh (e\<lparr>translate := tr\<rparr>) sid fid a t = enhance_if_session enh e sid fid a t"
  by (simp add: enhance_if_session_def)

lemma rag_answer_translate:
  assumes "\<forall>x l. l \<noteq> ''en'' \<longrightarrow> tr x l = translate e x l"
  shows "rag_answer enh (e\<lparr>translate := tr\<rparr>) m t idxs q lang sid fid =
         rag_answer enh e m t idxs q lang sid fid"
proof (cases "lang = ''en''")
  case True
  then show ?thesis by (simp add: rag_answer_def Let_def cong: sum.case_cong)
next
  case False
  then have "tr x lang = translate e x lang" for x using assms by simp
  then show ?thesis using False by (simp add: rag_answer_def Let_def cong: sum.case_cong)
qed

lemma resolve_tracker_translate [simp]:
  "resolve_tracker (e\<lparr>translate := tr\<rparr>) mem sid fid = resolve_tracker e mem sid fid"
  by (simp add: resolve_tracker_def)

lemma open_days_answer_translate [simp]:
  "open_days_answer (e\<lparr>translate := tr\<rparr>) = open_days_answer e"
  by (simp add: open_days_answer_def)

lemma answer_with_tracker_translate:
  assumes "\<forall>x l. l \<noteq> ''en'' \<longrightarrow> tr x l = translate e x l"
  shows "answer_with_tracker enh (e\<lparr>translate := tr\<rparr>) m t q lang sid fid =
         answer_with_tracker enh e m t q lang sid fid"
  unfolding answer_with_tracker_def Let_def rag_answer_translate[OF assms]
  by (simp cong: sum.case_cong option.case_cong prod.case_cong if_cong)

lemma translation_to_english_ignored:
  assumes "\<forall>x l. l \<noteq> ''en'' \<longrightarrow> tr x l = translate e x l"
  shows "find_best_answer (e\<lparr>translate := tr\<rparr>) mem q lang sid fid =
         find_best_answer e mem q lang sid fid"
  unfolding find_best_answer_def find_best_answer_with_def Let_def
    answer_with_tracker_translate[OF assms]
  by simp

section \<open>The acknowledgment (C8)\<close>

text \<open>
  Claim C8: with at least one interaction, the acknowledgment is the following-on phrase
  exactly when \<open>last_topic\<close> is a member of \<open>topics_discussed\<close>, and otherwise the
  empathetic phrase or the round-robin entry. The code tests whether \<open>last_topic\<close> is a
  substring of the printed set: a tracker with one interaction and no topic makes the
  enhancer raise \<open>TypeError\<close> where the claim promises a round-robin entry, and the topic
  \<open>fee\<close>, not a member of the set with the one element \<open>fees\<close>, gets the following-on
  phrase.
\<close>

theorem acknowledgment_substring_test:
  "add_acknowledgment (add_interaction 0 ''Hello'' ''Hi'' None (new_tracker 0 ''s'' None))
     = Inl TypeError \<and>
   enhance_for_voice ''Hi'' (add_interaction 0 ''Hello'' ''Hi'' None (new_tracker 0 ''s'' None)) None
     = Inl TypeError \<and>
   add_acknowledgment
     ((add_interaction 0 ''Hello'' ''Hi'' (Some ''fees'') (new_tracker 0 ''s'' None))
        \<lparr> last_topic := Some ''fee'' \<rparr>)
     = Inr ''Following on from what we discussed...'' \<and>
   ''fee'' \<notin> set (topics_discussed
     ((add_interaction 0 ''Hello'' ''Hi'' (Some ''fees'') (new_tracker 0 ''s'' None))
        \<lparr> last_topic := Some ''fee'' \<rparr>))"
  by code_simp

section \<open>Calls without a session (C9)\<close>

lemma add_interaction_interactions:
  "interactions (add_interaction ts q a tp t) =
     interactions t @ [\<lparr> ia_timestamp = ts, ia_question = q, ia_answer = take 200 a, ia_topic = tp \<rparr>]"
  by (simp add: add_interaction_def Let_def)

lemma enhance_if_session_None [simp]: "enhance_if_session enh e None fid a t = Inr a"
  by (simp add: enhance_if_session_def)

lemma store_None [simp]: "store mem None t = mem"
  by (simp add: store_def)

lemma rag_answer_no_session_eq:
  "rag_answer enh e mem t idxs q lang None fid = rag_answer enh' e mem t idxs q lang None fid"
  by (auto simp: rag_answer_def Let_def split: sum.splits prod.splits)

lemma rag_answer_no_session_memory:
  "memory (rag_answer enh e mem t idxs q lang None fid) = mem"
  by (auto simp: rag_answer_def Let_def split: sum.splits prod.splits)

lemma rag_answer_no_session_tracker:
  "tracker (rag_answer enh e mem t idxs q lang None fid) = Some t \<or>
   (\<exists>a tp. tracker (rag_answer enh e mem t idxs q lang None fid) =
      Some (add_interaction (now e) q a tp t))"
  by (auto simp: rag_answer_def Let_def split: sum.splits prod.splits)

lemma answer_with_tracker_no_session_eq:
  "answer_with_tracker enh e mem t q lang None fid = answer_with_tracker enh' e mem t q lang None fid"
  using rag_answer_no_session_eq[of enh e mem t _ q lang fid enh']
  by (auto simp: answer_with_tracker_def Let_def split: sum.splits prod.splits option.splits)

lemma answer_with_tracker_no_session_memory:
  "memory (answer_with_tracker enh e mem t q lang None fid) = mem"
  by (auto simp: answer_with_tracker_def Let_def rag_answer_no_session_memory
      split: sum.splits prod.splits option.splits)

lemma answer_with_tracker_no_session_tracker:
  "tracker (answer_with_tracker enh e mem t q lang None fid) = Some t \<or>
   (\<exists>a tp. tracker (answer_with_tracker enh e mem t q lang None fid) =
      Some (add_interaction (now e) q a tp t))"
proof (cases "exact_match (STATIC_QAS e) lang (q_lower_of q)")
  case (Some qa)
  then show ?thesis by (auto simp: answer_with_tracker_def Let_def)
next
  case None
  note ex = None
  show ?thesis
  proof (cases "fuzzy_match (STATIC_QAS e) lang (q_lower_of q)")
    case (Some bm)
    then show ?thesis using ex by (auto simp: answer_with_tracker_def Let_def)
  next
    case None
    show ?thesis
    proof (cases "vector_search e q 10")
      case (Inl err)
      then show ?thesis using ex None by (simp add: answer_with_tracker_def Let_def)
    next
      case (Inr r)
      obtain sims idxs where r: "r = (sims, idxs)" by (cases r) auto
      show ?thesis
        using ex None Inr r rag_answer_no_session_tracker[of enh e mem t idxs q lang fid]
        by (simp add: answer_with_tracker_def Let_def)
    qed
  qed
qed

text \<open>
  Claim C9: a call with \<open>session_id = None\<close> leaves the registry \<open>conversation_memory\<close> as
  it was, records an interaction at most on the tracker it has just created under a fresh
  identifier, and never passes the answer through the enhancer: the outcome is the same
  whatever enhancer the pipeline is given.
\<close>

theorem no_session_frame:
  "memory (find_best_answer e mem q lang None fid) = mem \<and>
   find_best_answer_with enh e mem q lang None fid = find_best_answer e mem q lang None fid \<and>
   (tracker (find_best_answer e mem q lang None fid) = None \<or>
    tracker (find_best_answer e mem q lang None fid) = Some (new_tracker (now e) (uuid4 e) fid) \<or>
    (\<exists>a tp. tracker (find_best_answer e mem q lang None fid) =
       Some (add_interaction (now e) q a tp (new_tracker (now e) (uuid4 e) fid))))"
proof (cases "any_in open_day_keywords (q_lower_of q)")
  case True
  then show ?thesis
    by (simp add: find_best_answer_def find_best_answer_with_def Let_def)
next
  case False
  let ?t0 = "new_tracker (now e) (uuid4 e) fid"
  have unfold: "\<And>f. find_best_answer_with f e mem q lang None fid =
                  answer_with_tracker f e mem ?t0 q lang None fid"
    using False by (simp add: find_best_answer_with_def resolve_tracker_def Let_def)
  show ?thesis
    unfolding find_best_answer_def unfold
    using answer_with_tracker_no_session_eq[of enh e mem ?t0 q lang fid enhance_for_voice]
      answer_with_tracker_no_session_memory[of enhance_for_voice e mem ?t0 q lang fid]
      answer_with_tracker_no_session_tracker[of enhance_for_voice e mem ?t0 q lang fid]
    by blast
qed

section \<open>Recording comes before enhancement (C10)\<close>

lemma enhance_after_recording:
  assumes "\<forall>a t f. interactions t \<noteq> [] \<and> ia_question (last (interactions t)) = q
             \<longrightarrow> enh a t f = enhance_for_voice a t f"
  shows "enhance_if_session enh e sid fid a (add_interaction ts q a' tp t) =
         enhance_if_session enhance_for_voice e sid fid a (add_interaction ts q a' tp t)"
  using assms by (simp add: enhance_if_session_def add_interaction_interactions)

lemma rag_answer_enhancer:
  assumes "\<forall>a t f. interactions t \<noteq> [] \<and> ia_question (last (interactions t)) = q
             \<longrightarrow> enh a t f = enhance_for_voice a t f"
  shows "rag_answer enh e mem t idxs q lang sid fid =
         rag_answer enhance_for_voice e mem t idxs q lang sid fid"
  unfolding rag_answer_def Let_def enhance_after_recording[OF assms] ..

lemma answer_with_tracker_enhancer:
  assumes "\<forall>a t f. interactions t \<noteq> [] \<and> ia_question (last (interactions t)) = q
             \<longrightarrow> enh a t f = enhance_for_voice a t f"
  shows "answer_with_tracker enh e mem t q lang sid fid =
         answer_with_tracker enhance_for_voice e mem t q lang sid fid"
  unfolding answer_with_tracker_def Let_def enhance_after_recording[OF assms]
    rag_answer_enhancer[OF assms] ..

lemma acknowledgments_not_greeting: "a \<in> set acknowledgments \<Longrightarrow> a \<noteq> greeting"
  by (auto simp: acknowledgments_def greeting_def)

lemma add_acknowledgment_not_greeting:
  assumes "interactions t \<noteq> []"
  shows "add_acknowledgment t \<noteq> Inr greeting"
proof (cases "last_topic t")
  case None
  then show ?thesis using assms by (simp add: add_acknowledgment_def)
next
  case (Some lt)
  have "acknowledgments ! (length (interactions t) mod length acknowledgments) \<in> set acknowledgments"
    by (rule nth_mem) (simp add: acknowledgments_def)
  then have "acknowledgments ! (length (interactions t) mod length acknowledgments) \<noteq> greeting"
    by (rule acknowledgments_not_greeting)
  then show ?thesis using assms Some
    by (simp add: add_acknowledgment_def greeting_def)
qed

text \<open>
  Claim C10: wherever the pipeline enhances an answer, it has recorded the current
  interaction on the tracker first. So the enhancer is only ever applied to a tracker that
  has an interaction, the last one holding the current question: an enhancer that agrees
  with \<open>enhance_for_voice\<close> on those trackers gives the same outcome. On such a tracker
  the acknowledgment is never the first-interaction greeting.
\<close>

theorem recorded_before_enhancement:
  assumes "\<forall>a t f. interactions t \<noteq> [] \<and> ia_question (last (interactions t)) = q
             \<longrightarrow> enh a t f = enhance_for_voice a t f"
  shows "find_best_answer_with enh e mem q lang sid fid = find_best_answer e mem q lang sid fid \<and>
         (\<forall>t. interactions t \<noteq> [] \<longrightarrow> add_acknowledgment t \<noteq> Inr greeting)"
  unfolding find_best_answer_def find_best_answer_with_def Let_def
    answer_with_tracker_enhancer[OF assms]
  using add_acknowledgment_not_greeting by simp

text \<open>
  The theorem at an enhancer that returns the greeting on a tracker without interactions:
  the first question of a session gets the following-on acknowledgment.
\<close>

theorem recorded_before_enhancement_witness:
  "find_best_answer_with
     (\<lambda>a t f. if interactions t = [] then Inr greeting else enhance_for_voice a t f)
     example_env Map.empty ''Fees'' ''en'' (Some ''s1'') None
     = find_best_answer example_env Map.empty ''Fees'' ''en'' (Some ''s1'') None \<and>
   result (find_best_answer example_env Map.empty ''Fees'' ''en'' (Some ''s1'') None) =
     Inr (''Following on from what we discussed... A Would you like to know about our payment plans?'',
          None, None, Some ''fees'', ''static'')"
proof -
  have "result (find_best_answer example_env Map.empty ''Fees'' ''en'' (Some ''s1'') None) =
     Inr (''Following on from what we discussed... A Would you like to know about our payment plans?'',
          None, None, Some ''fees'', ''static'')"
    by code_simp
  then show ?thesis
    using recorded_before_enhancement[of "''Fees''"
        "\<lambda>a t f. if interactions t = [] then Inr greeting else enhance_for_voice a t f"
        example_env Map.empty "''en''" "Some ''s1''" None]
    by simp
qed

section \<open>Recording of interactions (C1)\<close>

lemma recorded_once_add_interaction: "recorded_once q t (add_interaction ts q a tp t)"
  by (simp add: recorded_once_def add_interaction_interactions)

lemma rag_answer_records:
  assumes "result (rag_answer enh e m t idxs q lang sid fid) = Inr (ans, url, label, mk, src)"
  shows "src = ''rag'' \<and>
         (\<exists>t1. tracker (rag_answer enh e m t idxs q lang sid fid) = Some t1 \<and>
               recorded_once q t t1 \<and>
               memory (rag_answer enh e m t idxs q lang sid fid) = store m sid t1)"
  using assms recorded_once_add_interaction[of q t "now e"]
  by (auto simp: rag_answer_def Let_def split: sum.splits prod.splits)

lemma answer_with_tracker_records:
  assumes "result (answer_with_tracker enh e m t q lang sid fid) = Inr (ans, url, label, mk, src)"
  shows "(src = ''none'' \<and> \<not> truthy sid \<and>
          memory (answer_with_tracker enh e m t q lang sid fid) = m \<and>
          tracker (answer_with_tracker enh e m t q lang sid fid) = Some t) \<or>
         ((src = ''static'' \<or> src = ''fuzzy'' \<or> src = ''rag'' \<or> (src = ''none'' \<and> truthy sid)) \<and>
          (\<exists>t1. tracker (answer_with_tracker enh e m t q lang sid fid) = Some t1 \<and>
                recorded_once q t t1 \<and>
                memory (answer_with_tracker enh e m t q lang sid fid) = store m sid t1))"
proof (cases "exact_match (STATIC_QAS e) lang (q_lower_of q)")
  case (Some qa)
  then show ?thesis
    using assms recorded_once_add_interaction[of q t "now e"]
    by (auto simp: answer_with_tracker_def Let_def split: sum.splits)
next
  case None
  note ex = None
  show ?thesis
  proof (cases "fuzzy_match (STATIC_QAS e) lang (q_lower_of q)")
    case (Some bm)
    then show ?thesis
      using assms ex recorded_once_add_interaction[of q t "now e"]
      by (auto simp: answer_with_tracker_def Let_def split: sum.splits)
  next
    case None
    show ?thesis
    proof (cases "vector_search e q 10")
      case (Inl err)
      then show ?thesis using assms ex None by (simp add: answer_with_tracker_def Let_def)
    next
      case (Inr r)
      obtain sims idxs where r: "r = (sims, idxs)" by (cases r) auto
      show ?thesis
      proof (cases "length idxs > 0")
        case True
        have eq: "answer_with_tracker enh e m t q lang sid fid =
                  rag_answer enh e m t idxs q lang sid fid"
          using ex None Inr r True by (simp add: answer_with_tracker_def Let_def)
        show ?thesis using rag_answer_records[of enh e m t idxs q lang sid fid ans url label mk src] assms
          unfolding eq by blast
      next
        case False
        then show ?thesis
          using assms ex None Inr r recorded_once_add_interaction[of q t "now e"]
          by (auto simp: answer_with_tracker_def Let_def)
      qed
    qed
  qed
qed

lemma open_days_answer_source: "snd (snd (snd (snd (open_days_answer e)))) = ''open_days''"
  by (simp add: open_days_answer_def Let_def)

lemma store_resolve_tracker:
  "store (fst (resolve_tracker e mem sid fid)) sid t1 =
     (if truthy sid then mem(the sid \<mapsto> t1) else mem)"
  by (simp add: store_def resolve_tracker_def Let_def)

lemma resolve_tracker_no_session:
  "\<not> truthy sid \<Longrightarrow> fst (resolve_tracker e mem sid fid) = mem"
  by (simp add: resolve_tracker_def)

text \<open>
  Claim C1, as the code has it: a call that returns an answer from the static, fuzzy or
  retrieval tier appends exactly one interaction, with the current question, to the
  resolved tracker (and the registry holds that tracker when a session identifier was
  given); the no-match tier does so when a session identifier was given, and records
  nothing otherwise. The theorem says nothing about what an answer of the open-days
  shortcut records.
\<close>

theorem interaction_recording:
  assumes "result (find_best_answer e mem q lang sid fid) = Inr (ans, url, label, mk, src)"
  shows
    "src = ''open_days'' \<or>
     (src = ''none'' \<and> \<not> truthy sid \<and>
      memory (find_best_answer e mem q lang sid fid) = mem \<and>
      tracker (find_best_answer e mem q lang sid fid) = Some (snd (resolve_tracker e mem sid fid))) \<or>
     ((src = ''static'' \<or> src = ''fuzzy'' \<or> src = ''rag'' \<or> (src = ''none'' \<and> truthy sid)) \<and>
      (\<exists>t1. tracker (find_best_answer e mem q lang sid fid) = Some t1 \<and>
            recorded_once q (snd (resolve_tracker e mem sid fid)) t1 \<and>
            memory (find_best_answer e mem q lang sid fid) =
              (if truthy sid then mem(the sid \<mapsto> t1) else mem)))"
proof (cases "any_in open_day_keywords (q_lower_of q)")
  case True
  then have out: "find_best_answer e mem q lang sid fid =
                    \<lparr> result = Inr (open_days_answer e), memory = mem, tracker = None \<rparr>"
    by (simp add: find_best_answer_def find_best_answer_with_def Let_def)
  have "src = ''open_days''"
    using assms open_days_answer_source[of e] unfolding out by auto
  then show ?thesis by blast
next
  case False
  obtain m t where rt: "resolve_tracker e mem sid fid = (m, t)" by (cases "resolve_tracker e mem sid fid")
  have out: "find_best_answer e mem q lang sid fid =
               answer_with_tracker enhance_for_voice e m t q lang sid fid"
    using False rt by (simp add: find_best_answer_def find_best_answer_with_def Let_def)
  have m: "\<And>t1. store m sid t1 = (if truthy sid then mem(the sid \<mapsto> t1) else mem)"
    using store_resolve_tracker[of e mem sid fid] rt by simp
  have m0: "\<not> truthy sid \<Longrightarrow> m = mem"
    using resolve_tracker_no_session[of sid e mem fid] rt by simp
  have res: "result (answer_with_tracker enhance_for_voice e m t q lang sid fid) =
               Inr (ans, url, label, mk, src)"
    using assms unfolding out .
  have t: "snd (resolve_tracker e mem sid fid) = t" using rt by simp
  from answer_with_tracker_records[OF res]
  show ?thesis
  proof
    assume "src = ''none'' \<and> \<not> truthy sid \<and>
          memory (answer_with_tracker enhance_for_voice e m t q lang sid fid) = m \<and>
          tracker (answer_with_tracker enhance_for_voice e m t q lang sid fid) = Some t"
    then have "src = ''none'' \<and> \<not> truthy sid \<and>
      memory (find_best_answer e mem q lang sid fid) = mem \<and>
      tracker (find_best_answer e mem q lang sid fid) = Some (snd (resolve_tracker e mem sid fid))"
      unfolding out t using m0 by blast
    then show ?thesis by blast
  next
    assume "(src = ''static'' \<or> src = ''fuzzy'' \<or> src = ''rag'' \<or> (src = ''none'' \<and> truthy sid)) \<and>
          (\<exists>t1. tracker (answer_with_tracker enhance_for_voice e m t q lang sid fid) = Some t1 \<and>
                recorded_once q t t1 \<and>
                memory (answer_with_tracker enhance_for_voice e m t q lang sid fid) = store m sid t1)"
    then have "(src = ''static'' \<or> src = ''fuzzy'' \<or> src = ''rag'' \<or> (src = ''none'' \<and> truthy sid)) \<and>
      (\<exists>t1. tracker (find_best_answer e mem q lang sid fid) = Some t1 \<and>
            recorded_once q (snd (resolve_tracker e mem sid fid)) t1 \<and>
            memory (find_best_answer e mem q lang sid fid) =
              (if truthy sid then mem(the sid \<mapsto> t1) else mem))"
      unfolding out t m .
    then show ?thesis by blast
  qed
qed

text \<open>The theorem at the first question \<open>Fees\<close> of the session \<open>s1\<close>.\<close>

theorem interaction_recording_witness:
  "result (find_best_answer example_env Map.empty ''Fees'' ''en'' (Some ''s1'') None) =
     Inr (''Following on from what we discussed... A Would you like to know about our payment plans?'',
          None, None, Some ''fees'', ''static'') \<and>
   (\<exists>t1. tracker (find_best_answer example_env Map.empty ''Fees'' ''en'' (Some ''s1'') None) = Some t1 \<and>
         recorded_once ''Fees'' (new_tracker 0 ''s1'' None) t1 \<and>
         memory (find_best_answer example_env Map.empty ''Fees'' ''en'' (Some ''s1'') None) =
           [''s1'' \<mapsto> t1])"
proof -
  have r: "result (find_best_answer example_env Map.empty ''Fees'' ''en'' (Some ''s1'') None) =
     Inr (''Following on from what we discussed... A Would you like to know about our payment plans?'',
          None, None, Some ''fees'', ''static'')"
    by code_simp
  have t0: "snd (resolve_tracker example_env Map.empty (Some ''s1'') None) = new_tracker 0 ''s1'' None"
    by (simp add: resolve_tracker_def example_env_def Let_def)
  show ?thesis
    using interaction_recording[OF r] r unfolding t0 by simp
qed

text \<open>
  Claim C1 as stated fails: a question without a session that no tier matches is answered
  while the tracker of the call has no interaction, and an open-days question in session
  \<open>s1\<close> is answered while the registry still has no tracker for \<open>s1\<close>.
\<close>

theorem interaction_recording_counterexample:
  "(case result (find_best_answer example_env Map.empty ''When is the next open day?'' ''en''
                   (Some ''s1'') None) of
      Inl err \<Rightarrow> False
    | Inr (ans, url, label, mk, src) \<Rightarrow> src = ''open_days'') \<and>
   memory (find_best_answer example_env Map.empty ''When is the next open day?'' ''en''
             (Some ''s1'') None) ''s1'' = None \<and>
   tracker (find_best_answer example_env Map.empty ''When is the next open day?'' ''en''
             (Some ''s1'') None) = None \<and>
   result (find_best_answer example_env Map.empty ''zzz'' ''en'' None None) =
     Inr (no_match_response, None, None, None, ''none'') \<and>
   map_option interactions (tracker (find_best_answer example_env Map.empty ''zzz'' ''en'' None None))
     = Some []"
  by code_simp

text \<open>
  The open-days shortcut returns before a tracker is resolved and before the enhancer is
  reached: its outcome is the same for every enhancer.
\<close>

lemma tier1_not_enhanced:
  "any_in open_day_keywords (q_lower_of q) \<Longrightarrow>
   find_best_answer_with enh e mem q lang sid fid =
     \<lparr> result = Inr (open_days_answer e), memory = mem, tracker = None \<rparr>"
  by (simp add: find_best_answer_with_def Let_def)

section \<open>The enhancer after a recorded topic\<close>

text \<open>
  \<open>add_interaction\<close> with a non-empty topic sets \<open>last_topic\<close>, and with \<open>last_topic\<close>
  set the enhancer returns: the substring test of \<open>_add_acknowledgment\<close> has a string on
  its left.
\<close>

lemma add_interaction_last_topic:
  "truthy tp \<Longrightarrow> last_topic (add_interaction ts q a tp t) = tp"
  by (simp add: add_interaction_def Let_def)

lemma enhance_for_voice_returns:
  "last_topic t \<noteq> None \<Longrightarrow> \<exists>ans. enhance_for_voice a t fam = Inr ans"
  by (auto simp: enhance_for_voice_def add_acknowledgment_def Let_def split: option.splits)

lemma enhance_after_topic:
  assumes "truthy tp"
  shows "\<exists>ans. enhance_for_voice a (add_interaction ts q b tp t) fam = Inr ans"
proof -
  have "last_topic (add_interaction ts q b tp t) \<noteq> None"
    using assms add_interaction_last_topic[of tp ts q b t] by (cases tp) auto
  then show ?thesis by (rule enhance_for_voice_returns)
qed

section \<open>Exact lookup of a key (C2)\<close>

lemma find_first:
  assumes "x \<in> set xs" and "P x" and "\<forall>y \<in> set (takeWhile (\<lambda>y. y \<noteq> x) xs). \<not> P y"
  shows "find P xs = Some x"
  using assms
proof (induction xs)
  case Nil
  then show ?case by simp
next
  case (Cons y ys)
  show ?case
  proof (cases "y = x")
    case True
    then show ?thesis using Cons.prems(2) by simp
  next
    case False
    then have "\<not> P y" and "x \<in> set ys" and "\<forall>z \<in> set (takeWhile (\<lambda>y. y \<noteq> x) ys). \<not> P z"
      using Cons.prems by auto
    then show ?thesis using Cons.IH Cons.prems(2) by simp
  qed
qed

lemma exact_match_key:
  assumes "qa \<in> set qas"
    and "\<forall>qa' \<in> set (takeWhile (\<lambda>x. x \<noteq> qa) qas).
           qa_language qa' = qa_language qa \<longrightarrow>
           lower (qa_key qa) \<notin> set (map lower (variants_of qa'))"
  shows "exact_match qas (qa_language qa) (lower (qa_key qa)) = Some qa"
  unfolding exact_match_def
  by (rule find_first) (use assms in \<open>auto simp: variants_of_def\<close>)

text \<open>
  Claim C2, as the code has it: let an entry of the static table have a non-empty key
  without surrounding white space and without an open-days keyword, and let no entry
  before it in the table, of the same language, have the key among its variants (ignoring
  case). Then a call with the key as the question and the entry's language returns the
  entry's url and label, the key as matched key and the source \<open>static\<close>; the answer is
  the entry's answer when no session identifier is given, and otherwise what the enhancer
  returns for the entry's answer and the tracker with the interaction recorded.
\<close>

theorem exact_key_lookup:
  assumes "qa \<in> set (STATIC_QAS e)"
    and "qa_key qa \<noteq> []"
    and "strip (qa_key qa) = qa_key qa"
    and "\<not> any_in open_day_keywords (lower (qa_key qa))"
    and "\<forall>qa' \<in> set (takeWhile (\<lambda>x. x \<noteq> qa) (STATIC_QAS e)).
           qa_language qa' = qa_language qa \<longrightarrow>
           lower (qa_key qa) \<notin> set (map lower (variants_of qa'))"
  shows "if truthy sid
         then \<exists>ans. enhance_for_voice (qa_answer qa)
                       (add_interaction (now e) (qa_key qa) (qa_answer qa) (Some (qa_key qa))
                          (snd (resolve_tracker e mem sid fid)))
                       (if truthy fid then fetch_family_context e (the fid) else None) = Inr ans \<and>
                    result (find_best_answer e mem (qa_key qa) (qa_language qa) sid fid) =
                      Inr (ans, qa_url qa, qa_label qa, Some (qa_key qa), ''static'')
         else result (find_best_answer e mem (qa_key qa) (qa_language qa) sid fid) =
                Inr (qa_answer qa, qa_url qa, qa_label qa, Some (qa_key qa), ''static'')"
proof -
  have ql: "q_lower_of (qa_key qa) = lower (qa_key qa)"
    using assms(3) by (simp add: q_lower_of_def)
  have ex: "exact_match (STATIC_QAS e) (qa_language qa) (lower (qa_key qa)) = Some qa"
    by (rule exact_match_key[OF assms(1) assms(5)])
  obtain m t where rt: "resolve_tracker e mem sid fid = (m, t)"
    by (cases "resolve_tracker e mem sid fid")
  have out: "find_best_answer e mem (qa_key qa) (qa_language qa) sid fid =
               answer_with_tracker enhance_for_voice e m t (qa_key qa) (qa_language qa) sid fid"
    using assms(4) rt ql by (simp add: find_best_answer_def find_best_answer_with_def Let_def)
  obtain ans where enh:
    "enhance_for_voice (qa_answer qa)
       (add_interaction (now e) (qa_key qa) (qa_answer qa) (Some (qa_key qa)) t)
       (if truthy fid then fetch_family_context e (the fid) else None) = Inr ans"
    using enhance_after_topic[of "Some (qa_key qa)"] assms(2) by fastforce
  show ?thesis
    unfolding out rt
    by (simp add: answer_with_tracker_def Let_def ql ex enhance_if_session_def enh)
qed

text \<open>
  The theorem at the entry \<open>fees\<close> of the example table, without a session and in the
  session \<open>s1\<close>.
\<close>

theorem exact_key_lookup_witness:
  "result (find_best_answer example_env Map.empty ''fees'' ''en'' None None) =
     Inr (''A'', None, None, Some ''fees'', ''static'') \<and>
   (\<exists>ans. enhance_for_voice ''A''
            (add_interaction 0 ''fees'' ''A'' (Some ''fees'') (new_tracker 0 ''s1'' None)) None =
            Inr ans \<and>
          result (find_best_answer example_env Map.empty ''fees'' ''en'' (Some ''s1'') None) =
            Inr (ans, None, None, Some ''fees'', ''static''))"
  using exact_key_lookup[of "STATIC_QAS example_env ! 1" example_env None Map.empty None]
    exact_key_lookup[of "STATIC_QAS example_env ! 1" example_env "Some ''s1''" Map.empty None]
  by (simp add: example_env_def strip_def isspace_def any_in_def open_day_keywords_def
      lower_def lower_char_def variants_of_def resolve_tracker_def Let_def)

text \<open>
  Claim C2 as stated fails in five ways: in a session the answer returned for the key
  \<open>fees\<close> is the enhanced text, not the entry's answer; the key \<open>school tour\<close> is answered
  by the open-days shortcut; the key \<open>entry\<close> is answered from the earlier entry that lists
  it as a variant; the key that starts with a blank is stripped before matching, so it
  is found by the fuzzy tier only; and for the empty key the first call of a session raises
  \<open>TypeError\<close> in the enhancer.
\<close>

theorem exact_key_lookup_counterexample:
  "result (find_best_answer example_env Map.empty ''fees'' ''en'' (Some ''s1'') None) =
     Inr (''Following on from what we discussed... A Would you like to know about our payment plans?'',
          None, None, Some ''fees'', ''static'') \<and>
   result (find_best_answer awkward_env Map.empty ''school tour'' ''en'' None None) =
     Inr (open_days_answer awkward_env) \<and>
   snd (snd (snd (snd (open_days_answer awkward_env)))) = ''open_days'' \<and>
   result (find_best_answer awkward_env Map.empty ''entry'' ''en'' None None) =
     Inr (''How to apply.'', Some ''https://www.cheltenhamcollege.org/admissions/'',
          Some ''Admissions'', Some ''admissions'', ''static'') \<and>
   result (find_best_answer awkward_env Map.empty '' fees'' ''en'' None None) =
     Inr (''Fees are termly.'', None, Some ''Fees'', Some '' fees'', ''fuzzy'') \<and>
   result (find_best_answer empty_key_env Map.empty [] ''en'' (Some ''s1'') None) = Inl TypeError"
  by code_simp

section \<open>The fuzzy tier (C5)\<close>

lemma fuzzy_variants_fold:
  "fuzzy_variants q qa vs st = fold fuzzy_step (map (\<lambda>v. (qa, ratio q (lower v))) vs) st"
proof (induction vs arbitrary: st)
  case Nil
  then show ?case by simp
next
  case (Cons v vs)
  obtain bs bm where st: "st = (bs, bm)" by (cases st)
  show ?case unfolding st by (simp add: Cons.IH fuzzy_step_def Let_def)
qed

lemma fuzzy_scan_fold:
  "fuzzy_scan q lang qas st =
     fold fuzzy_step (scored_variants q (filter (\<lambda>qa. qa_language qa = lang) qas)) st"
proof (induction qas arbitrary: st)
  case Nil
  then show ?case by (simp add: scored_variants_def)
next
  case (Cons qa qas)
  show ?case
  proof (cases "qa_language qa = lang")
    case True
    then show ?thesis
      using Cons.IH by (simp add: scored_variants_def fuzzy_variants_fold)
  next
    case False
    then show ?thesis using Cons.IH by simp
  qed
qed

lemma find_append_found: "find P xs = Some x \<Longrightarrow> find P (xs @ ys) = Some x"
  by (induction xs) (auto split: if_splits)

lemma find_append_not_found: "\<forall>x \<in> set xs. \<not> P x \<Longrightarrow> find P (xs @ ys) = find P ys"
  by (induction xs) auto

lemma find_exists: "x \<in> set xs \<Longrightarrow> P x \<Longrightarrow> \<exists>y. find P xs = Some y"
  by (induction xs) auto

lemma fold_fuzzy_step:
  "fold fuzzy_step S (0, None) =
     (Max (set (0 # map snd S)),
      if Max (set (0 # map snd S)) > 0
      then map_option fst (find (\<lambda>p. snd p = Max (set (0 # map snd S))) S) else None)"
proof (induction S rule: rev_induct)
  case Nil
  then show ?case by simp
next
  case (snoc p S)
  define M where "M = Max (set (0 # map snd S))"
  define M' where "M' = Max (set (0 # map snd (S @ [p])))"
  have IH: "fold fuzzy_step S (0, None) =
              (M, if M > 0 then map_option fst (find (\<lambda>p. snd p = M) S) else None)"
    using snoc.IH unfolding M_def .
  have M': "M' = max (snd p) M"
  proof -
    have "set (0 # map snd (S @ [p])) = insert (snd p) (set (0 # map snd S))" by auto
    then show ?thesis unfolding M'_def M_def by (simp del: set_simps(2) set_append)
  qed
  have le: "\<And>x. x \<in> set S \<Longrightarrow> snd x \<le> M"
    unfolding M_def by (intro Max_ge) auto
  have M0: "0 \<le> M" unfolding M_def by (intro Max_ge) auto
  have step: "fold fuzzy_step (S @ [p]) (0, None) =
                fuzzy_step p (M, if M > 0 then map_option fst (find (\<lambda>p. snd p = M) S) else None)"
    using IH by simp
  have goal: "fuzzy_step p (M, if M > 0 then map_option fst (find (\<lambda>p. snd p = M) S) else None) =
                (M', if M' > 0 then map_option fst (find (\<lambda>q. snd q = M') (S @ [p])) else None)"
  proof (cases "snd p > M")
    case True
    then have new: "M' = snd p" using M' by (simp add: max_def)
    have none: "\<forall>x \<in> set S. \<not> snd x = snd p" using le True by fastforce
    have "find (\<lambda>x. snd x = snd p) (S @ [p]) = Some p"
      using find_append_not_found[OF none, of "[p]"] by simp
    then show ?thesis
      using True M0 unfolding new by (simp add: fuzzy_step_def)
  next
    case False
    then have same: "M' = M" using M' by (simp add: max_def)
    show ?thesis
    proof (cases "M > 0")
      case pos: True
      have "M \<in> set (0 # map snd S)" unfolding M_def by (intro Max_in) auto
      then obtain x where x: "x \<in> set S" "snd x = M" using pos by auto
      then obtain y where "find (\<lambda>p. snd p = M) S = Some y"
        using find_exists[of x S "\<lambda>p. snd p = M"] by auto
      then have "find (\<lambda>q. snd q = M) (S @ [p]) = find (\<lambda>p. snd p = M) S"
        using find_append_found[of "\<lambda>p. snd p = M" S y "[p]"] by simp
      then show ?thesis
        using False pos unfolding same by (simp add: fuzzy_step_def)
    next
      case F: False
      then show ?thesis using False unfolding same by (simp add: fuzzy_step_def)
    qed
  qed
  show ?case unfolding step goal M'_def ..
qed

lemma find_scored_variants:
  "map_option fst (find (\<lambda>p. snd p = m) (scored_variants q qas)) =
     find (\<lambda>qa. m \<in> set (map (\<lambda>v. ratio q (lower v)) (variants_of qa))) qas"
proof (induction qas)
  case Nil
  then show ?case by (simp add: scored_variants_def)
next
  case (Cons qa qas)
  define row where "row = map (\<lambda>v. (qa, ratio q (lower v))) (variants_of qa)"
  have sv: "scored_variants q (qa # qas) = row @ scored_variants q qas"
    by (simp add: scored_variants_def row_def)
  have fst_row: "\<And>y. y \<in> set row \<Longrightarrow> fst y = qa" by (auto simp: row_def)
  have snd_row: "snd ` set row = set (map (\<lambda>v. ratio q (lower v)) (variants_of qa))"
    by (force simp: row_def)
  show ?case
  proof (cases "m \<in> set (map (\<lambda>v. ratio q (lower v)) (variants_of qa))")
    case True
    then have "m \<in> snd ` set row" unfolding snd_row .
    then obtain p where p: "p \<in> set row" "snd p = m" by blast
    then obtain y where y: "find (\<lambda>p. snd p = m) row = Some y"
      using find_exists[of p row "\<lambda>p. snd p = m"] by auto
    then have "y \<in> set row" by (auto simp: find_Some_iff)
    then have "fst y = qa" by (rule fst_row)
    then show ?thesis
      using True find_append_found[OF y, of "scored_variants q qas"] unfolding sv by simp
  next
    case False
    then have "m \<notin> snd ` set row" unfolding snd_row .
    then have "\<forall>x \<in> set row. \<not> snd x = m" by blast
    from find_append_not_found[OF this, of "scored_variants q qas"]
    show ?thesis using False Cons.IH unfolding sv by simp
  qed
qed

lemma map_snd_scored_variants:
  "map snd (scored_variants q qas) =
     concat (map (\<lambda>qa. map (\<lambda>v. ratio q (lower v)) (variants_of qa)) qas)"
  by (induction qas) (simp_all add: scored_variants_def comp_def)

lemma fuzzy_match_spec: "fuzzy_match qas lang q = fuzzy_spec qas lang q"
proof -
  define cands where "cands = filter (\<lambda>qa. qa_language qa = lang) qas"
  define S where "S = scored_variants q cands"
  define scores where
    "scores = concat (map (\<lambda>qa. map (\<lambda>v. ratio q (lower v)) (variants_of qa)) cands)"
  define M where "M = Max (set (0 # map snd S))"
  define m where "m = Max (set scores)"
  have sc: "map snd S = scores" unfolding S_def scores_def by (rule map_snd_scored_variants)
  have scan: "fuzzy_scan q lang qas (0, None) =
                (M, if M > 0 then map_option fst (find (\<lambda>p. snd p = M) S) else None)"
    unfolding fuzzy_scan_fold M_def S_def cands_def by (rule fold_fuzzy_step)
  have spec: "fuzzy_spec qas lang q =
                (if scores = [] then None
                 else if m > 8 / 10
                 then find (\<lambda>qa. m \<in> set (map (\<lambda>v. ratio q (lower v)) (variants_of qa))) cands
                 else None)"
    unfolding fuzzy_spec_def Let_def scores_def m_def cands_def ..
  have fm: "fuzzy_match qas lang q =
              (if (if M > 0 then map_option fst (find (\<lambda>p. snd p = M) S) else None) \<noteq> None
                  \<and> M > 8 / 10
               then (if M > 0 then map_option fst (find (\<lambda>p. snd p = M) S) else None) else None)"
    unfolding fuzzy_match_def scan by simp
  show ?thesis
  proof (cases "scores = []")
    case True
    then have "S = []" using sc by simp
    then have "M = 0" unfolding M_def by simp
    then show ?thesis unfolding fm spec using True by simp
  next
    case False
    have M: "M = max 0 m"
    proof -
      have "set (0 # map snd S) = insert 0 (set scores)" using sc by simp
      moreover have "set scores \<noteq> {}" using False by simp
      ultimately show ?thesis unfolding M_def m_def by (simp add: max.commute)
    qed
    show ?thesis
    proof (cases "m > 8 / 10")
      case big: True
      then have Mm: "M = m" using M by (simp add: max_def)
      have "m \<in> set scores" unfolding m_def using False by (intro Max_in) auto
      then have "m \<in> snd ` set S" using sc by (metis list.set_map)
      then obtain p where p: "p \<in> set S" "snd p = m" by auto
      then obtain y where y: "find (\<lambda>p. snd p = m) S = Some y"
        using find_exists[of p S "\<lambda>p. snd p = m"] by auto
      have "fuzzy_match qas lang q = map_option fst (find (\<lambda>p. snd p = m) S)"
        unfolding fm Mm using big y by simp
      also have "\<dots> = find (\<lambda>qa. m \<in> set (map (\<lambda>v. ratio q (lower v)) (variants_of qa))) cands"
        unfolding S_def by (rule find_scored_variants)
      also have "\<dots> = fuzzy_spec qas lang q"
        unfolding spec using False big by simp
      finally show ?thesis .
    next
      case small: False
      then have "\<not> M > 8 / 10" using M by (simp add: max_def)
      then have "fuzzy_match qas lang q = None" unfolding fm by simp
      then show ?thesis unfolding spec using False small by simp
    qed
  qed
qed

lemma rag_answer_source:
  "result (rag_answer enh e m t idxs q lang sid fid) \<noteq> Inr (ans, u, l, k, ''fuzzy'')"
  by (auto simp: rag_answer_def Let_def split: sum.splits prod.splits)

text \<open>
  Claim C5, as the code has it: the fuzzy tier selects an entry exactly when the greatest
  ratio, over every variant of every entry of the language against the lower-cased
  question, exceeds 0.8, and then it selects the earliest entry of the table that attains
  it: the two loops of the code compute \<open>fuzzy_spec\<close>. When the open-days shortcut and
  the exact tier do not fire, the call returns the url, label and key of that entry with
  the source \<open>fuzzy\<close>; the answer is the entry's answer when no session identifier is
  given, and, for an entry with a non-empty key, what the enhancer returns for the entry's
  answer otherwise. When \<open>fuzzy_spec\<close> has no match, the source of the call is not
  \<open>fuzzy\<close>.
\<close>

theorem fuzzy_tier:
  assumes "\<not> any_in open_day_keywords (q_lower_of q)"
    and "exact_match (STATIC_QAS e) lang (q_lower_of q) = None"
  shows "fuzzy_match (STATIC_QAS e) lang (q_lower_of q) = fuzzy_spec (STATIC_QAS e) lang (q_lower_of q) \<and>
         (case fuzzy_spec (STATIC_QAS e) lang (q_lower_of q) of
            Some bm \<Rightarrow>
              if truthy sid
              then qa_key bm \<noteq> [] \<longrightarrow>
                   (\<exists>ans. enhance_for_voice (qa_answer bm)
                            (add_interaction (now e) q (qa_answer bm) (Some (qa_key bm))
                               (snd (resolve_tracker e mem sid fid)))
                            (if truthy fid then fetch_family_context e (the fid) else None) = Inr ans \<and>
                          result (find_best_answer e mem q lang sid fid) =
                            Inr (ans, qa_url bm, qa_label bm, Some (qa_key bm), ''fuzzy''))
              else result (find_best_answer e mem q lang sid fid) =
                     Inr (qa_answer bm, qa_url bm, qa_label bm, Some (qa_key bm), ''fuzzy'')
          | None \<Rightarrow>
              (\<forall>ans u l k. result (find_best_answer e mem q lang sid fid) \<noteq>
                 Inr (ans, u, l, k, ''fuzzy'')))"
proof -
  obtain m t where rt: "resolve_tracker e mem sid fid = (m, t)"
    by (cases "resolve_tracker e mem sid fid")
  have out: "find_best_answer e mem q lang sid fid =
               answer_with_tracker enhance_for_voice e m t q lang sid fid"
    using assms(1) rt by (simp add: find_best_answer_def find_best_answer_with_def Let_def)
  have spec: "fuzzy_match (STATIC_QAS e) lang (q_lower_of q) = fuzzy_spec (STATIC_QAS e) lang (q_lower_of q)"
    by (rule fuzzy_match_spec)
  show ?thesis
  proof (cases "fuzzy_spec (STATIC_QAS e) lang (q_lower_of q)")
    case (Some bm)
    then have fm: "fuzzy_match (STATIC_QAS e) lang (q_lower_of q) = Some bm" using spec by simp
    have enh: "\<exists>ans. enhance_for_voice (qa_answer bm)
                 (add_interaction (now e) q (qa_answer bm) (Some (qa_key bm)) t)
                 (if truthy fid then fetch_family_context e (the fid) else None) = Inr ans"
      if "qa_key bm \<noteq> []"
      using enhance_after_topic[of "Some (qa_key bm)"] that by fastforce
    show ?thesis
    proof (cases "truthy sid")
      case True
      show ?thesis
        unfolding out rt using Some True enh
        by (auto simp: answer_with_tracker_def Let_def assms(2) fm enhance_if_session_def spec)
    next
      case False
      show ?thesis
        unfolding out rt using Some False
        by (simp add: answer_with_tracker_def Let_def assms(2) fm enhance_if_session_def spec)
    qed
  next
    case None
    then have fm: "fuzzy_match (STATIC_QAS e) lang (q_lower_of q) = None" using spec by simp
    have "result (answer_with_tracker enhance_for_voice e m t q lang sid fid) \<noteq>
            Inr (ans, u, l, k, ''fuzzy'')" for ans u l k
      using rag_answer_source[of enhance_for_voice e m t _ q lang sid fid ans u l k]
      by (auto simp: answer_with_tracker_def Let_def assms(2) fm split: sum.splits prod.splits)
    then show ?thesis unfolding out using None spec by simp
  qed
qed

text \<open>
  The theorem at the question \<open>Entrys\<close> on the awkward table: the variant \<open>entry\<close> of the
  first entry and the key \<open>entry\<close> of the second both score 10/11, and the first entry is
  returned, with its answer when there is no session and with the enhancer's text in the
  session \<open>s1\<close>.
\<close>

theorem fuzzy_tier_witness:
  "fuzzy_spec (STATIC_QAS awkward_env) ''en'' ''entrys'' = Some (STATIC_QAS awkward_env ! 0) \<and>
   ratio ''entrys'' ''entry'' = 10 / 11 \<and>
   result (find_best_answer awkward_env Map.empty ''Entrys'' ''en'' None None) =
     Inr (''How to apply.'', Some ''https://www.cheltenhamcollege.org/admissions/'',
          Some ''Admissions'', Some ''admissions'', ''fuzzy'') \<and>
   (\<exists>ans. enhance_for_voice ''How to apply.''
            (add_interaction 0 ''Entrys'' ''How to apply.'' (Some ''admissions'')
               (new_tracker 0 ''s1'' None)) None = Inr ans \<and>
          result (find_best_answer awkward_env Map.empty ''Entrys'' ''en'' (Some ''s1'') None) =
            Inr (ans, Some ''https://www.cheltenhamcollege.org/admissions/'',
                 Some ''Admissions'', Some ''admissions'', ''fuzzy''))"
proof -
  have ql: "q_lower_of ''Entrys'' = ''entrys''" by code_simp
  have h1: "\<not> any_in open_day_keywords (q_lower_of ''Entrys'')" by code_simp
  have h2: "exact_match (STATIC_QAS awkward_env) ''en'' (q_lower_of ''Entrys'') = None" by code_simp
  have sp: "fuzzy_spec (STATIC_QAS awkward_env) ''en'' ''entrys'' = Some (STATIC_QAS awkward_env ! 0)"
    by code_simp
  have r: "ratio ''entrys'' ''entry'' = 10 / 11" by code_simp
  have e0: "STATIC_QAS awkward_env ! 0 =
      \<lparr> qa_key = ''admissions'', qa_language = ''en'', qa_answer = ''How to apply.'',
        qa_variants = [''admissions'', ''apply'', ''entry''],
        qa_url = Some ''https://www.cheltenhamcollege.org/admissions/'',
        qa_label = Some ''Admissions'' \<rparr>"
    by (simp add: awkward_env_def)
  have t0: "snd (resolve_tracker awkward_env Map.empty (Some ''s1'') None) = new_tracker 0 ''s1'' None"
    by (simp add: resolve_tracker_def awkward_env_def example_env_def Let_def)
  have n0: "now awkward_env = 0" by (simp add: awkward_env_def example_env_def)
  show ?thesis
    using fuzzy_tier[OF h1 h2, of Map.empty None None]
      fuzzy_tier[OF h1 h2, of Map.empty "Some ''s1''" None] sp r unfolding ql
    by (simp add: e0 t0 n0)
qed

text \<open>
  Claim C5 as stated fails in a session: the question \<open>Entrys\<close> in the session \<open>s1\<close> is
  answered from the first entry, but the answer returned is the enhancer's text and not
  the entry's answer \<open>How to apply.\<close>; and the question \<open>welcom\<close>, whose best variant
  scores 12/13 at the entry with the empty key, raises \<open>TypeError\<close> in the enhancer on
  the first call of a session.
\<close>

theorem fuzzy_tier_counterexample:
  "fuzzy_match (STATIC_QAS awkward_env) ''en'' (q_lower_of ''Entrys'') =
     Some (STATIC_QAS awkward_env ! 0) \<and>
   qa_answer (STATIC_QAS awkward_env ! 0) = ''How to apply.'' \<and>
   result (find_best_answer awkward_env Map.empty ''Entrys'' ''en'' (Some ''s1'') None) =
     Inr (''Following on from what we discussed... How to apply. Would you like to book a personal tour?'',
          Some ''https://www.cheltenhamcollege.org/admissions/'',
          Some ''Admissions'', Some ''admissions'', ''fuzzy'') \<and>
   ratio ''welcom'' ''welcome'' = 12 / 13 \<and>
   fuzzy_match (STATIC_QAS empty_key_env) ''en'' (q_lower_of ''welcom'') =
     Some (STATIC_QAS empty_key_env ! 0) \<and>
   result (find_best_answer empty_key_env Map.empty ''welcom'' ''en'' (Some ''s1'') None) =
     Inl TypeError"
  by code_simp

section \<open>The similarity score (C6)\<close>

subsection \<open>The ratio is at most 1\<close>

lemma sizes_simps [simp]:
  "sizes [] = 0" "sizes ((i, j, k) # xs) = k + sizes xs" "sizes (xs @ ys) = sizes xs + sizes ys"
  by (simp_all add: sizes_def)

lemma capacity_simps [simp]:
  "capacity [] = 0"
  "capacity ((alo, ahi, blo, bhi) # rs) = (ahi - alo) + (bhi - blo) + capacity rs"
  "capacity (rs @ rs') = capacity rs + capacity rs'"
  by (simp_all add: capacity_def)

lemma matching_blocks_loop_sizes:
  "2 * sizes (matching_blocks_loop a b queue blocks) \<le> 2 * sizes blocks + capacity queue"
proof (induction a b queue blocks rule: matching_blocks_loop.induct)
  case (1 a b blocks)
  then show ?case by simp
next
  case (2 a b alo ahi blo bhi queue blocks)
  obtain i j k where flm: "find_longest_match a b alo ahi blo bhi = (i, j, k)"
    by (cases "find_longest_match a b alo ahi blo bhi") auto
  show ?case
  proof (cases "k = 0")
    case True
    then show ?thesis using 2(2)[OF flm[symmetric] refl] flm by simp
  next
    case False
    have bounds: "alo \<le> i" "i + k \<le> ahi" "blo \<le> j" "j + k \<le> bhi"
      using find_longest_match_bounds[OF flm False] by auto
    let ?q = "(if i + k < ahi \<and> j + k < bhi then [(i + k, ahi, j + k, bhi)] else []) @
              (if alo < i \<and> blo < j then [(alo, i, blo, j)] else []) @ queue"
    have IH: "2 * sizes (matching_blocks_loop a b ?q (blocks @ [(i, j, k)]))
                \<le> 2 * sizes (blocks @ [(i, j, k)]) + capacity ?q"
      using 2(1)[OF flm[symmetric] refl False] .
    have cap: "capacity ?q + 2 * k \<le> (ahi - alo) + (bhi - blo) + capacity queue"
      using bounds False by auto
    have "matching_blocks_loop a b ((alo, ahi, blo, bhi) # queue) blocks =
            matching_blocks_loop a b ?q (blocks @ [(i, j, k)])"
      using flm False by simp
    then show ?thesis using IH cap by simp
  qed
qed

lemma sizes_insort: "sizes (insort x xs) = sizes [x] + sizes xs"
  by (induction xs) (auto simp: sizes_def)

lemma sizes_sort: "sizes (sort xs) = sizes xs"
proof (induction xs)
  case Nil
  then show ?case by simp
next
  case (Cons x xs)
  have "sort (x # xs) = insort x (sort xs)" by (simp add: sort_key_def)
  then show ?case using Cons sizes_insort[of x "sort xs"] by (cases x) simp
qed

lemma sizes_collapse: "sizes (collapse (i, j, k) xs) = k + sizes xs"
proof (induction xs arbitrary: i j k)
  case Nil
  then show ?case by simp
next
  case (Cons x xs)
  obtain i2 j2 k2 where x: "x = (i2, j2, k2)" by (cases x) auto
  show ?case unfolding x using Cons[of i "j" "k + k2"] Cons[of i2 j2 k2] by simp
qed

lemma ratio_matches:
  "sum_list (map (\<lambda>(i, j, k). k) (get_matching_blocks a b)) =
     sizes (matching_blocks_loop a b [(0, length a, 0, length b)] [])"
  using sizes_collapse[of 0 0 0] sizes_sort
  by (simp add: get_matching_blocks_def sizes_def[symmetric])

lemma ratio_bounds: "0 \<le> ratio a b \<and> ratio a b \<le> 1"
proof -
  define M where "M = sizes (matching_blocks_loop a b [(0, length a, 0, length b)] [])"
  define T where "T = length a + length b"
  have M: "2 * M \<le> T"
    using matching_blocks_loop_sizes[of a b "[(0, length a, 0, length b)]" "[]"]
    unfolding M_def T_def by simp
  have r: "ratio a b = (if T \<noteq> 0 then 2 * of_nat M / of_nat T else 1)"
    unfolding ratio_def Let_def ratio_matches M_def T_def ..
  show ?thesis
  proof (cases "T = 0")
    case True
    then show ?thesis unfolding r by simp
  next
    case False
    then have pos: "(0 :: rat) < of_nat T" by simp
    have "(of_nat (2 * M) :: rat) \<le> of_nat T"
      using M by (simp only: of_nat_le_iff)
    then have le: "(2 * of_nat M :: rat) \<le> of_nat T" by simp
    have "(2 * of_nat M / of_nat T :: rat) \<le> 1"
      using pos le by (simp add: divide_le_eq_1)
    moreover have "(0 :: rat) \<le> 2 * of_nat M / of_nat T" by simp
    ultimately show ?thesis unfolding r using False by simp
  qed
qed

subsection \<open>A text compared with itself\<close>

lemma run_popular: "popular b (b ! j) \<Longrightarrow> run b j = 0"
  by (cases j) simp_all

lemma run_nonpop: "\<not> popular b (b ! j) \<Longrightarrow> run b j = (if j = 0 then 0 else run b (j - 1)) + 1"
  by (cases j) simp_all

lemma get_le_run_col:
  assumes "prev_ok b i j2len"
  shows "j2len_get j2len j \<le> (if j = 0 then 0 else run b (j - 1))"
proof (cases "j = 0")
  case True
  then show ?thesis by (simp add: j2len_get_def)
next
  case False
  show ?thesis
  proof (cases "j2len (j - 1)")
    case None
    then show ?thesis using False by (simp add: j2len_get_def)
  next
    case (Some v)
    then have "v \<le> run b (j - 1)" using assms unfolding prev_ok_def by blast
    then show ?thesis using False Some by (simp add: j2len_get_def)
  qed
qed

lemma get_le_run_row:
  assumes "prev_ok b i j2len"
  shows "j2len_get j2len j \<le> (if i = 0 then 0 else run b (i - 1))"
proof (cases "j = 0")
  case True
  then show ?thesis by (simp add: j2len_get_def)
next
  case False
  show ?thesis
  proof (cases "j2len (j - 1)")
    case None
    then show ?thesis using False by (simp add: j2len_get_def)
  next
    case (Some v)
    then have "0 < i \<and> v \<le> run b (i - 1)" using assms unfolding prev_ok_def by blast
    then show ?thesis using False Some by (simp add: j2len_get_def)
  qed
qed

lemma get_diag:
  assumes "prev_ok b i j2len"
  shows "j2len_get j2len i = (if i = 0 then 0 else run b (i - 1))"
proof (cases "i = 0")
  case True
  then show ?thesis by (simp add: j2len_get_def)
next
  case False
  show ?thesis
  proof (cases "popular b (b ! (i - 1))")
    case True
    then have r0: "run b (i - 1) = 0" by (rule run_popular)
    have "j2len_get j2len i \<le> run b (i - 1)"
      using get_le_run_col[OF assms, of i] False by simp
    then show ?thesis using False r0 by simp
  next
    case np: False
    then have "j2len (i - 1) = Some (run b (i - 1))"
      using assms False unfolding prev_ok_def by simp
    then show ?thesis using False by (simp add: j2len_get_def)
  qed
qed

lemma flm_inner_diag:
  assumes prev: "prev_ok b i j2len" and i: "i < n" and np: "\<not> popular b (b ! i)"
  shows "sorted js \<Longrightarrow> distinct js \<Longrightarrow> \<forall>j\<in>set js. j < n \<and> b ! j = b ! i \<Longrightarrow>
         inner_ok b i js st \<Longrightarrow> inner_ok b i [] (flm_inner i 0 n j2len js st)"
proof (induction js arbitrary: st)
  case Nil
  then show ?case by simp
next
  case (Cons j js)
  obtain new bi bj bs where st: "st = (new, bi, bj, bs)" by (cases st) auto
  define k where "k = j2len_get j2len j + 1"
  have jn: "j < n" and bj: "b ! j = b ! i" using Cons.prems(3) by auto
  have npj: "\<not> popular b (b ! j)" using np bj by simp
  have kj: "k \<le> run b j"
    using get_le_run_col[OF prev, of j] run_nonpop[OF npj] unfolding k_def by simp
  have ki: "k \<le> run b i"
    using get_le_run_row[OF prev, of j] run_nonpop[OF np] unfolding k_def by simp
  have I: "bi = bj" "\<forall>j<i. run b j \<le> bs" "i \<in> set (j # js) \<or> run b i \<le> bs"
    "\<forall>j v. new j = Some v \<longrightarrow> v \<le> run b j \<and> v \<le> run b i"
    "i \<notin> set (j # js) \<longrightarrow> new i = Some (run b i)"
    using Cons.prems(4) unfolding st inner_ok_def by auto
  define best' where "best' = (if k > bs then (i + 1 - k, j + 1 - k, k) else (bi, bj, bs))"
  have step: "flm_inner i 0 n j2len (j # js) st = flm_inner i 0 n j2len js (new(j \<mapsto> k), best')"
    unfolding st k_def best'_def using jn flm_inner_step[of j 0 n i j2len js new bi bj bs] by simp
  have new_ok: "\<forall>j' v. (new(j \<mapsto> k)) j' = Some v \<longrightarrow> v \<le> run b j' \<and> v \<le> run b i"
    using I(4) kj ki by auto
  have next_ok: "inner_ok b i js (new(j \<mapsto> k), best')"
  proof (cases "j < i")
    case True
    then have "k \<le> bs" using kj I(2) by fastforce
    then have b: "best' = (bi, bj, bs)" unfolding best'_def by simp
    have "i \<in> set js \<or> run b i \<le> bs" using I(3) True by auto
    moreover have "i \<notin> set js \<longrightarrow> (new(j \<mapsto> k)) i = Some (run b i)"
      using I(5) True by auto
    ultimately show ?thesis unfolding b inner_ok_def using I(1,2) new_ok by simp
  next
    case False
    show ?thesis
    proof (cases "j = i")
      case True
      have kd: "k = run b i"
        using get_diag[OF prev] run_nonpop[OF np] True unfolding k_def by simp
      have newi: "(new(j \<mapsto> k)) i = Some (run b i)" using True kd by simp
      show ?thesis
      proof (cases "k > bs")
        case big: True
        then have b: "best' = (i + 1 - k, i + 1 - k, k)" unfolding best'_def using \<open>j = i\<close> by simp
        have "\<forall>j<i. run b j \<le> k" using I(2) big by fastforce
        then show ?thesis unfolding b inner_ok_def using new_ok newi kd by simp
      next
        case small: False
        then have b: "best' = (bi, bj, bs)" unfolding best'_def by simp
        have "run b i \<le> bs" using small kd by simp
        then show ?thesis unfolding b inner_ok_def using I(1,2) new_ok newi by simp
      qed
    next
      case ne: False
      then have gt: "i < j" using False by simp
      have "\<forall>x\<in>set js. j \<le> x" using Cons.prems(1) by simp
      then have notin: "i \<notin> set (j # js)" using gt by auto
      then have ri: "run b i \<le> bs" using I(3) by blast
      then have "k \<le> bs" using ki by simp
      then have b: "best' = (bi, bj, bs)" unfolding best'_def by simp
      have "(new(j \<mapsto> k)) i = Some (run b i)" using I(5) notin ne by simp
      then show ?thesis unfolding b inner_ok_def using I(1,2) new_ok ri by simp
    qed
  qed
  have "sorted js" "distinct js" "\<forall>j\<in>set js. j < n \<and> b ! j = b ! i"
    using Cons.prems by auto
  from Cons.IH[OF this next_ok] show ?case unfolding step .
qed

lemma flm_row_diag:
  assumes prev: "prev_ok b m j2len" and m: "m < length b" and bd: "best_diag b m bst"
  shows "prev_ok b (m + 1) (fst (flm_inner m 0 (length b) j2len (b2j b (b ! m)) (Map.empty, bst))) \<and>
         best_diag b (m + 1) (snd (flm_inner m 0 (length b) j2len (b2j b (b ! m)) (Map.empty, bst)))"
proof (cases "popular b (b ! m)")
  case True
  have "prev_ok b (m + 1) Map.empty" using True by (simp add: prev_ok_def)
  moreover have "best_diag b (m + 1) bst"
    using bd run_popular[OF True] unfolding best_diag_def
    by (auto simp: less_Suc_eq split: prod.splits)
  ultimately show ?thesis using True by (simp add: b2j_def)
next
  case False
  define js where "js = filter (\<lambda>j. b ! j = b ! m) [0..<length b]"
  have js: "b2j b (b ! m) = js" using False by (simp add: b2j_def js_def)
  have s: "sorted js" "distinct js" "\<forall>j\<in>set js. j < length b \<and> b ! j = b ! m"
    unfolding js_def by (auto simp: sorted_wrt_filter)
  have mem: "m \<in> set js" using m unfolding js_def by simp
  obtain bi bj bs where bst: "bst = (bi, bj, bs)" by (cases bst) auto
  have init: "inner_ok b m js (Map.empty, bst)"
    using bd mem unfolding bst inner_ok_def best_diag_def by simp
  obtain new' bi' bj' bs' where
    res: "flm_inner m 0 (length b) j2len js (Map.empty, bst) = (new', bi', bj', bs')"
    by (cases "flm_inner m 0 (length b) j2len js (Map.empty, bst)") auto
  have fin: "inner_ok b m [] (new', bi', bj', bs')"
    using flm_inner_diag[OF prev m False s init] unfolding res .
  then have F: "bi' = bj'" "\<forall>j<m. run b j \<le> bs'" "run b m \<le> bs'"
    "\<forall>j v. new' j = Some v \<longrightarrow> v \<le> run b j \<and> v \<le> run b m" "new' m = Some (run b m)"
    unfolding inner_ok_def by auto
  have "prev_ok b (m + 1) new'" using F(4,5) by (simp add: prev_ok_def)
  moreover have "best_diag b (m + 1) (bi', bj', bs')"
    using F(1,2,3) unfolding best_diag_def by (auto simp: less_Suc_eq)
  ultimately show ?thesis unfolding js res by simp
qed

lemma flm_outer_diag:
  assumes "m \<le> length b" and "prev_ok b m j2len" and "best_diag b m bst"
  shows "best_diag b (length b) (snd (flm_outer b b 0 (length b) [m..<length b] (j2len, bst)))"
  using assms
proof (induction "length b - m" arbitrary: m j2len bst)
  case 0
  then show ?case by simp
next
  case (Suc d)
  then have lt: "m < length b" by simp
  have upt: "[m..<length b] = m # [Suc m..<length b]" using lt by (simp add: upt_rec)
  define st where "st = flm_inner m 0 (length b) j2len (b2j b (b ! m)) (Map.empty, bst)"
  have ok: "prev_ok b (m + 1) (fst st) \<and> best_diag b (m + 1) (snd st)"
    unfolding st_def by (rule flm_row_diag[OF Suc.prems(2) lt Suc.prems(3)])
  have d: "d = length b - Suc m" using Suc.hyps(2) by simp
  have "best_diag b (length b) (snd (flm_outer b b 0 (length b) [Suc m..<length b] (fst st, snd st)))"
    using Suc.hyps(1)[OF d, of "fst st" "snd st"] lt ok by simp
  then show ?case unfolding upt st_def by simp
qed

lemma extend_left_diag: "extend_left b b 0 0 (bi, bi, bs) = (0, 0, bs + bi)"
proof (induction bi arbitrary: bs)
  case 0
  then show ?case by (subst extend_left.simps) simp
next
  case (Suc bi)
  show ?case using Suc[of "bs + 1"] by (subst extend_left.simps) simp
qed

lemma extend_right_diag: "s \<le> n \<Longrightarrow> extend_right b b n n (0, 0, s) = (0, 0, n)"
proof (induction "n - s" arbitrary: s)
  case 0
  then show ?case by (subst extend_right.simps) simp
next
  case (Suc d)
  then have "s < n" by simp
  moreover have "extend_right b b n n (0, 0, s + 1) = (0, 0, n)"
    using Suc.hyps(1)[of "s + 1"] Suc.hyps(2) Suc.prems by simp
  ultimately show ?case by (subst extend_right.simps) simp
qed

lemma find_longest_match_same:
  "find_longest_match b b 0 (length b) 0 (length b) = (0, 0, length b)"
proof -
  define n where "n = length b"
  obtain bi bj bs where main: "snd (flm_outer b b 0 n [0..<n] (Map.empty, 0, 0, 0)) = (bi, bj, bs)"
    by (cases "snd (flm_outer b b 0 n [0..<n] (Map.empty, 0, 0, 0))") auto
  have "best_diag b n (bi, bj, bs)"
    using flm_outer_diag[of 0 b Map.empty "(0, 0, 0)"] main unfolding n_def
    by (simp add: prev_ok_def best_diag_def)
  then have diag: "bj = bi" by (simp add: best_diag_def)
  have "best_ok 0 0 (max 0 n) n (bi, bj, bs)"
    using flm_outer_ok[of 0 0 0 Map.empty n "(0, 0, 0)" n b b] main
    by (simp add: row_ok_empty best_ok_def)
  then have le: "bs + bi \<le> n" by (auto simp: best_ok_def)
  have "find_longest_match b b 0 n 0 n = extend_right b b n n (extend_left b b 0 0 (bi, bi, bs))"
    unfolding find_longest_match_def main diag ..
  also have "\<dots> = (0, 0, n)"
    unfolding extend_left_diag by (rule extend_right_diag[OF le])
  finally show ?thesis unfolding n_def .
qed

lemma ratio_same: "ratio a a = 1"
proof (cases "a = []")
  case True
  then show ?thesis by (simp add: ratio_def Let_def)
next
  case False
  have "matching_blocks_loop a a [(0, length a, 0, length a)] [] = [(0, 0, length a)]"
    using False by (simp add: find_longest_match_same)
  then have "sum_list (map (\<lambda>(i, j, k). k) (get_matching_blocks a a)) = length a"
    unfolding ratio_matches by simp
  then show ?thesis using False by (simp add: ratio_def Let_def)
qed

subsection \<open>The claim\<close>

lemma exact_match_variant:
  assumes "qa \<in> set qas" and "qa_language qa = lang" and "v \<in> set (variants_of qa)"
  shows "\<exists>qa'. exact_match qas lang (lower v) = Some qa'"
  unfolding exact_match_def
  by (rule find_exists[of qa]) (use assms in auto)

text \<open>
  Claim C6, as the code has it: the similarity score of any two strings lies between 0
  and 1, and a string scores 1 against itself. A question that equals, stripped and
  lower-cased, the lower-cased variant of an entry of the request language scores 1
  against it and never reaches the fuzzy tier: the open-days shortcut answers it when the
  question holds an open-days keyword, and otherwise the exact tier does. (The score is
  not symmetric in its arguments.)
\<close>

theorem similarity_score:
  "0 \<le> ratio a b \<and> ratio a b \<le> 1 \<and> ratio a a = 1 \<and>
   (qa \<in> set (STATIC_QAS e) \<and> qa_language qa = lang \<and> v \<in> set (variants_of qa) \<and>
    q_lower_of q = lower v \<longrightarrow>
      ratio (q_lower_of q) (lower v) = 1 \<and>
      (if any_in open_day_keywords (q_lower_of q)
       then result (find_best_answer e mem q lang sid fid) = Inr (open_days_answer e)
       else \<exists>qa'. exact_match (STATIC_QAS e) lang (q_lower_of q) = Some qa' \<and>
              result (find_best_answer e mem q lang sid fid) =
                (case enhance_if_session enhance_for_voice e sid fid (qa_answer qa')
                        (add_interaction (now e) q (qa_answer qa') (Some (qa_key qa'))
                           (snd (resolve_tracker e mem sid fid))) of
                   Inl err \<Rightarrow> Inl err
                 | Inr ans \<Rightarrow> Inr (ans, qa_url qa', qa_label qa', Some (qa_key qa'), ''static''))))"
proof -
  have pipeline: "ratio (q_lower_of q) (lower v) = 1 \<and>
      (if any_in open_day_keywords (q_lower_of q)
       then result (find_best_answer e mem q lang sid fid) = Inr (open_days_answer e)
       else \<exists>qa'. exact_match (STATIC_QAS e) lang (q_lower_of q) = Some qa' \<and>
              result (find_best_answer e mem q lang sid fid) =
                (case enhance_if_session enhance_for_voice e sid fid (qa_answer qa')
                        (add_interaction (now e) q (qa_answer qa') (Some (qa_key qa'))
                           (snd (resolve_tracker e mem sid fid))) of
                   Inl err \<Rightarrow> Inl err
                 | Inr ans \<Rightarrow> Inr (ans, qa_url qa', qa_label qa', Some (qa_key qa'), ''static'')))"
    if h: "qa \<in> set (STATIC_QAS e)" "qa_language qa = lang" "v \<in> set (variants_of qa)"
      "q_lower_of q = lower v"
  proof (cases "any_in open_day_keywords (q_lower_of q)")
    case True
    then show ?thesis
      using h(4) ratio_same[of "lower v"]
      by (simp add: find_best_answer_def find_best_answer_with_def Let_def)
  next
    case False
    obtain qa' where ex: "exact_match (STATIC_QAS e) lang (q_lower_of q) = Some qa'"
      using exact_match_variant[OF h(1,2,3)] h(4) by auto
    obtain m t where rt: "resolve_tracker e mem sid fid = (m, t)"
      by (cases "resolve_tracker e mem sid fid")
    have out: "find_best_answer e mem q lang sid fid =
                 answer_with_tracker enhance_for_voice e m t q lang sid fid"
      using False rt by (simp add: find_best_answer_def find_best_answer_with_def Let_def)
    have "result (find_best_answer e mem q lang sid fid) =
                (case enhance_if_session enhance_for_voice e sid fid (qa_answer qa')
                        (add_interaction (now e) q (qa_answer qa') (Some (qa_key qa'))
                           (snd (resolve_tracker e mem sid fid))) of
                   Inl err \<Rightarrow> Inl err
                 | Inr ans \<Rightarrow> Inr (ans, qa_url qa', qa_label qa', Some (qa_key qa'), ''static''))"
      unfolding out rt by (simp add: answer_with_tracker_def Let_def ex split: sum.splits)
    then show ?thesis using False ex h(4) ratio_same[of "lower v"] by simp
  qed
  show ?thesis using ratio_bounds[of a b] ratio_same[of a] pipeline by blast
qed

text \<open>The theorem at the question \<open>Fees\<close> and the variant \<open>fees\<close> of the example table.\<close>

theorem similarity_score_witness:
  "0 \<le> ratio ''tide'' ''diet'' \<and> ratio ''tide'' ''diet'' \<le> 1 \<and> ratio ''tide'' ''tide'' = 1 \<and>
   ratio ''fees'' ''fees'' = 1 \<and>
   result (find_best_answer example_env Map.empty ''Fees'' ''en'' None None) =
     Inr (''A'', None, None, Some ''fees'', ''static'')"
proof -
  have ql: "q_lower_of ''Fees'' = lower ''fees''" by code_simp
  have nt: "\<not> any_in open_day_keywords (q_lower_of ''Fees'')" by code_simp
  have h: "STATIC_QAS example_env ! 1 \<in> set (STATIC_QAS example_env) \<and>
           qa_language (STATIC_QAS example_env ! 1) = ''en'' \<and>
           ''fees'' \<in> set (variants_of (STATIC_QAS example_env ! 1))"
    by (simp add: example_env_def variants_of_def)
  have em: "exact_match (STATIC_QAS example_env) ''en'' (q_lower_of ''Fees'') =
              Some (STATIC_QAS example_env ! 1)"
    by code_simp
  have e1: "STATIC_QAS example_env ! 1 =
      \<lparr> qa_key = ''fees'', qa_language = ''en'', qa_answer = ''A'',
        qa_variants = [''fees'', ''tuition''], qa_url = None, qa_label = None \<rparr>"
    by (simp add: example_env_def)
  have lf: "lower ''fees'' = ''fees''" by code_simp
  show ?thesis
    using similarity_score[of "''tide''" "''diet''" "STATIC_QAS example_env ! 1" example_env "''en''"
        "''fees''" "''Fees''" Map.empty None None] h ql nt em
    unfolding e1 lf by simp
qed

text \<open>
  Claim C6 as stated fails: \<open>tide\<close> against \<open>diet\<close> scores 1/4 and \<open>diet\<close> against
  \<open>tide\<close> scores 1/2, so the score is not symmetric; and the question \<open>Visit\<close>, equal to
  the variant \<open>visit\<close> of the entry \<open>open events\<close>, is answered by the open-days shortcut,
  not by the exact tier.
\<close>

theorem similarity_score_counterexample:
  "ratio ''tide'' ''diet'' = 1 / 4 \<and> ratio ''diet'' ''tide'' = 1 / 2 \<and>
   ''visit'' \<in> set (map lower (variants_of (STATIC_QAS open_events_env ! 0))) \<and>
   result (find_best_answer open_events_env Map.empty ''Visit'' ''en'' None None) =
     Inr (open_days_answer open_events_env) \<and>
   snd (snd (snd (snd (open_days_answer open_events_env)))) = ''open_days''"
  by code_simp

end
